(* ===== verification/Chat_Prelude.thy ===== *)
theory Chat_Prelude
  imports Main
begin

text \<open>
  Shared vocabulary of the chat-server development: the types that name the
  model's values, the Python exceptions the server can raise, the result type
  of a Python callback (returned, raised with the state reached at the raise,
  or outside the modelled fragment of SQLite), CPython's \<open>list.remove\<close>, and
  the generic list lemmas the component theories share.
\<close>

named_theorems chat_simps "characteristic equations of the model, used by the component proofs"

text \<open>
  A Python \<open>str\<close> is modelled by its UTF-8 encoding: every value that reaches
  the server arrives as bytes and is decoded, and every value it writes is
  encoded again (\<open>.encode()\<close>), so the byte string is the common form.
  Connections (the identities of \<open>ClientProtocol\<close> objects) are numbers.
\<close>

type_synonym pystr = string
type_synonym conn = nat

datatype py_error = ValueError | UnicodeDecodeError | SqliteError | AttributeError

text \<open>
  The outcome of running Python code on a state: it returns, or it raises an
  exception, in which case the state is the one reached when the exception
  was raised (mutations before the \<open>raise\<close> stay done), or the code executed an
  SQL statement whose effect is not modelled (see \<open>Sql_Fragment\<close>).
\<close>

datatype 's py_result = Ok 's | Exc py_error 's | Outside_model

fun py_then :: "'s py_result \<Rightarrow> ('s \<Rightarrow> 's py_result) \<Rightarrow> 's py_result" where
  "py_then (Ok s) f = f s"
| "py_then (Exc e s) f = Exc e s"
| "py_then Outside_model f = Outside_model"

lemma py_then_Ok [simp]: "py_then r Ok = r"
  by (cases r) simp_all

lemma py_then_assoc: "py_then (py_then r f) g = py_then r (\<lambda>s. py_then (f s) g)"
  by (cases r) simp_all

subsection \<open>CPython's \<open>list.remove\<close>\<close>

text \<open>
  \<open>list.remove(x)\<close> scans the list from the left, deletes the first item equal
  to \<open>x\<close> and raises \<open>ValueError\<close> when there is none
  (\<open>Objects/listobject.c\<close>, \<open>list_remove\<close>).
\<close>

fun py_list_remove :: "'a \<Rightarrow> 'a list \<Rightarrow> py_error + 'a list" where
  "py_list_remove x [] = Inl ValueError"
| "py_list_remove x (y # ys) =
     (if y = x then Inr ys
      else (case py_list_remove x ys of Inl e \<Rightarrow> Inl e | Inr zs \<Rightarrow> Inr (y # zs)))"

lemma py_list_remove_eq [chat_simps]:
  "py_list_remove x xs = (if x \<in> set xs then Inr (remove1 x xs) else Inl ValueError)"
  by (induction xs) auto

lemma py_list_remove_absent [simp]: "x \<notin> set xs \<Longrightarrow> py_list_remove x xs = Inl ValueError"
  by (simp add: py_list_remove_eq)

lemma py_list_remove_present [simp]: "x \<in> set xs \<Longrightarrow> py_list_remove x xs = Inr (remove1 x xs)"
  by (simp add: py_list_remove_eq)

subsection \<open>Lists\<close>

lemma distinct_remove1_notin [simp]: "distinct xs \<Longrightarrow> x \<notin> set (remove1 x xs)"
  by (induction xs) auto

end
