(* ===== verification/Py_Str.thy ===== *)
theory Py_Str
  imports Chat_Prelude
begin

text \<open>
  The Python \<open>str\<close> and \<open>bytes\<close> methods that \<open>src/app/server.py\<close> calls, on the
  UTF-8 encoding of the string: \<open>bytes.decode()\<close> (UTF-8 validation),
  \<open>str.startswith\<close>, \<open>str.replace\<close> and \<open>str.strip\<close>. Each is written the way
  CPython computes it (\<open>Objects/unicodeobject.c\<close>), transported to the
  encoding: on valid UTF-8, a prefix of code points is a prefix of bytes, an
  ASCII pattern occurs at the same places in both, and a whitespace code point
  is one of the byte sequences listed in \<open>py_ws\<close>.
\<close>

subsection \<open>Decoding\<close>

text \<open>
  Python's UTF-8 decoder accepts exactly the well-formed sequences of
  Unicode's table 3-7: no overlong forms, no surrogates, nothing above
  U+10FFFF. \<open>data.decode()\<close> raises \<open>UnicodeDecodeError\<close> otherwise.
\<close>

definition byte_in :: "char \<Rightarrow> nat \<Rightarrow> nat \<Rightarrow> bool" where
  "byte_in c lo hi \<longleftrightarrow> lo \<le> of_char c \<and> of_char c \<le> hi"

fun utf8_valid :: "pystr \<Rightarrow> bool" where
  "utf8_valid [] = True"
| "utf8_valid (c # cs) =
     (let b = (of_char c :: nat) in
      if b < 128 then utf8_valid cs
      else if 194 \<le> b \<and> b \<le> 223 then
        (case cs of d # ds \<Rightarrow> byte_in d 128 191 \<and> utf8_valid ds | [] \<Rightarrow> False)
      else if 224 \<le> b \<and> b \<le> 239 then
        (case cs of
           d1 # d2 # ds \<Rightarrow>
             byte_in d1 (if b = 224 then 160 else 128) (if b = 237 then 159 else 191)
             \<and> byte_in d2 128 191 \<and> utf8_valid ds
         | _ \<Rightarrow> False)
      else if 240 \<le> b \<and> b \<le> 244 then
        (case cs of
           d1 # d2 # d3 # ds \<Rightarrow>
             byte_in d1 (if b = 240 then 144 else 128) (if b = 244 then 143 else 191)
             \<and> byte_in d2 128 191 \<and> byte_in d3 128 191 \<and> utf8_valid ds
         | _ \<Rightarrow> False)
      else False)"

definition py_decode :: "pystr \<Rightarrow> py_error + pystr" where
  "py_decode bs = (if utf8_valid bs then Inr bs else Inl UnicodeDecodeError)"

lemma py_decode_Inr: "py_decode d = Inr m \<Longrightarrow> m = d"
  by (simp add: py_decode_def split: if_splits)

lemma utf8_valid_ascii [simp]:
  "\<forall>c\<in>set s. of_char c < (128::nat) \<Longrightarrow> utf8_valid s"
  by (induction s) auto

text \<open>
  A valid text with a byte from 0x80 has a prefix that is not: cut it right
  after the first such byte, a lead byte whose continuation is cut off.
\<close>

lemma utf8_valid_ascii_prefix:
  "\<forall>x\<in>set a. of_char x < (128::nat) \<Longrightarrow> utf8_valid (a @ r) = utf8_valid r"
  by (induction a) auto

lemma utf8_valid_single: "utf8_valid [x] \<longleftrightarrow> of_char x < (128::nat)"
  by (simp add: Let_def)

lemma utf8_valid_split_lead:
  assumes "utf8_valid m" and "\<exists>x\<in>set m. 128 \<le> (of_char x :: nat)"
  obtains p q where "m = p @ q" "p \<noteq> []" "q \<noteq> []" "\<not> utf8_valid p"
proof -
  let ?P = "\<lambda>x. of_char x < (128::nat)"
  have "dropWhile ?P m \<noteq> []" using assms(2) by (force simp: dropWhile_eq_Nil_conv not_less)
  then obtain b r where d: "dropWhile ?P m = b # r" by (cases "dropWhile ?P m") auto
  have b: "\<not> ?P b" using d hd_dropWhile [of ?P m] by (metis list.distinct(1) list.sel(1))
  have a: "\<forall>x\<in>set (takeWhile ?P m). ?P x" by (auto dest: set_takeWhileD)
  have m: "m = takeWhile ?P m @ b # r" using d takeWhile_dropWhile_id [of ?P m] by simp
  then have "utf8_valid (b # r)" using assms(1) utf8_valid_ascii_prefix [OF a] by metis
  then have "r \<noteq> []" using b utf8_valid_single [of b] by auto
  moreover have "\<not> utf8_valid (takeWhile ?P m @ [b])"
    using utf8_valid_ascii_prefix [OF a] utf8_valid_single b by simp
  ultimately show thesis using m by (intro that [of "takeWhile ?P m @ [b]" r]) simp_all
qed

subsection \<open>\<open>str.startswith\<close>\<close>

definition py_startswith :: "pystr \<Rightarrow> pystr \<Rightarrow> bool" where
  "py_startswith s prefix \<longleftrightarrow> take (length prefix) s = prefix"

lemma py_startswith_iff: "py_startswith s p \<longleftrightarrow> (\<exists>r. s = p @ r)"
  unfolding py_startswith_def by (metis append_eq_conv_conj append_take_drop_id)

lemma py_startswith_append [simp]: "py_startswith (p @ r) p"
  by (simp add: py_startswith_def)

subsection \<open>\<open>str.replace\<close>\<close>

text \<open>
  \<open>s.replace(old, new)\<close> with a non-empty \<open>old\<close> scans from the left and
  replaces every non-overlapping occurrence, resuming after the replaced one.
  With an empty \<open>old\<close>, \<open>new\<close> is inserted before every code point and at the
  end; a code point starts at every byte that is not a UTF-8 continuation
  byte.
\<close>

function replace_nonempty :: "pystr \<Rightarrow> pystr \<Rightarrow> pystr \<Rightarrow> pystr" where
  "replace_nonempty old new s =
     (if old \<noteq> [] \<and> take (length old) s = old
      then new @ replace_nonempty old new (drop (length old) s)
      else (case s of [] \<Rightarrow> [] | c # cs \<Rightarrow> c # replace_nonempty old new cs))"
  by pat_completeness auto
termination
proof (relation "measure (\<lambda>(old, new, s). length s)")
  fix old new s :: pystr
  assume "old \<noteq> [] \<and> take (length old) s = old"
  then have "0 < length old" and "length old \<le> length s"
    by (auto dest: arg_cong [where f = length])
  then have "length (drop (length old) s) < length s"
    unfolding length_drop by linarith
  then show "((old, new, drop (length old) s), old, new, s) \<in> measure (\<lambda>(old, new, s). length s)"
    by simp
qed auto

declare replace_nonempty.simps [simp del]

definition utf8_continuation :: "char \<Rightarrow> bool" where
  "utf8_continuation c \<longleftrightarrow> byte_in c 128 191"

fun insert_at_code_points :: "pystr \<Rightarrow> pystr \<Rightarrow> pystr" where
  "insert_at_code_points new [] = new"
| "insert_at_code_points new (c # cs) =
     (if utf8_continuation c then c # insert_at_code_points new cs
      else new @ c # insert_at_code_points new cs)"

definition py_replace :: "pystr \<Rightarrow> pystr \<Rightarrow> pystr \<Rightarrow> pystr" where
  "py_replace s old new =
     (if old = [] then insert_at_code_points new s else replace_nonempty old new s)"

text \<open>
  \<open>occurs p s\<close>: \<open>p\<close> is a substring of \<open>s\<close> (Python's \<open>p in s\<close>). Where
  the pattern does not occur, \<open>replace\<close> changes nothing.
\<close>

fun occurs :: "pystr \<Rightarrow> pystr \<Rightarrow> bool" where
  "occurs p [] = (p = [])"
| "occurs p (c # s) = (take (length p) (c # s) = p \<or> occurs p s)"

lemma occurs_Cons: "\<not> occurs p (c # s) \<Longrightarrow> \<not> occurs p s"
  by simp

lemma occurs_prefix: "take (length p) s = p \<Longrightarrow> occurs p s"
  by (cases s) auto

lemma replace_nonempty_absent: "\<not> occurs old s \<Longrightarrow> replace_nonempty old new s = s"
proof (induction old new s rule: replace_nonempty.induct)
  case (1 old new s)
  show ?case
  proof (cases "old \<noteq> [] \<and> take (length old) s = old")
    case True
    with "1.prems" show ?thesis by (auto dest: occurs_prefix)
  next
    case False
    then show ?thesis using "1.IH"(2) "1.prems"
      by (cases s) (auto simp: replace_nonempty.simps [of old new] dest: occurs_Cons)
  qed
qed

lemma replace_nonempty_prefix:
  "old \<noteq> [] \<Longrightarrow> replace_nonempty old new (old @ s) = new @ replace_nonempty old new s"
  by (simp add: replace_nonempty.simps [of old new "old @ s"])

text \<open>
  An occurrence after a text in which none starts is the first one replaced.
\<close>

lemma take_before_old:
  "a \<noteq> [] \<Longrightarrow> take (length old) (a @ old @ b) = take (length old) (a @ butlast old)"
proof (cases "length old \<le> length a")
  case True
  then show ?thesis by simp
next
  case False
  moreover assume "a \<noteq> []"
  ultimately have "length old - length a < length old" by (cases a) auto
  then have "take (length old - length a) (butlast old) = take (length old - length a) old"
    by (rule take_butlast)
  with False show ?thesis by simp
qed

lemma replace_nonempty_sep:
  assumes "old \<noteq> []" and "\<not> occurs old (a @ butlast old)"
  shows "replace_nonempty old new (a @ old @ b) = a @ new @ replace_nonempty old new b"
  using assms(2)
proof (induction a)
  case Nil
  then show ?case using replace_nonempty_prefix [OF assms(1)] by simp
next
  case (Cons c a)
  have "take (length old) (c # a @ old @ b) \<noteq> old"
    using Cons.prems take_before_old [of "c # a" old b] by auto
  then have "replace_nonempty old new (c # a @ old @ b) = c # replace_nonempty old new (a @ old @ b)"
    by (simp add: replace_nonempty.simps [of old new "c # _"])
  then show ?case using Cons.IH Cons.prems by (simp add: occurs_Cons)
qed

subsection \<open>\<open>str.strip\<close>\<close>

text \<open>
  \<open>str.strip()\<close> removes leading and trailing whitespace, where whitespace is
  \<open>str.isspace\<close>: U+0009 to U+000D, U+001C to U+0020, U+0085, U+00A0,
  U+1680, U+2000 to U+200A, U+2028, U+2029, U+202F, U+205F and U+3000.
  \<open>py_ws\<close> lists their UTF-8 encodings.
\<close>

definition py_ws :: "pystr list" where
  "py_ws =
     [[CHR 0x09], [CHR 0x0A], [CHR 0x0B], [CHR 0x0C], [CHR 0x0D],
      [CHR 0x1C], [CHR 0x1D], [CHR 0x1E], [CHR 0x1F], [CHR 0x20],
      [CHR 0xC2, CHR 0x85], [CHR 0xC2, CHR 0xA0], [CHR 0xE1, CHR 0x9A, CHR 0x80],
      [CHR 0xE2, CHR 0x80, CHR 0x80], [CHR 0xE2, CHR 0x80, CHR 0x81], [CHR 0xE2, CHR 0x80, CHR 0x82],
      [CHR 0xE2, CHR 0x80, CHR 0x83], [CHR 0xE2, CHR 0x80, CHR 0x84], [CHR 0xE2, CHR 0x80, CHR 0x85],
      [CHR 0xE2, CHR 0x80, CHR 0x86], [CHR 0xE2, CHR 0x80, CHR 0x87], [CHR 0xE2, CHR 0x80, CHR 0x88],
      [CHR 0xE2, CHR 0x80, CHR 0x89], [CHR 0xE2, CHR 0x80, CHR 0x8A],
      [CHR 0xE2, CHR 0x80, CHR 0xA8], [CHR 0xE2, CHR 0x80, CHR 0xA9],
      [CHR 0xE2, CHR 0x80, CHR 0xAF], [CHR 0xE2, CHR 0x81, CHR 0x9F],
      [CHR 0xE3, CHR 0x80, CHR 0x80]]"

lemma find_SomeD: "find P xs = Some x \<Longrightarrow> P x \<and> x \<in> set xs"
  by (induction xs) (auto split: if_splits)

text \<open>Remove, as long as there is one, a leading sequence of \<open>ws\<close>.\<close>

function strip_seqs :: "pystr list \<Rightarrow> pystr \<Rightarrow> pystr" where
  "strip_seqs ws s =
     (case find (\<lambda>w. w \<noteq> [] \<and> take (length w) s = w) ws of
        None \<Rightarrow> s
      | Some w \<Rightarrow> strip_seqs ws (drop (length w) s))"
  by pat_completeness auto
termination
proof (relation "measure (\<lambda>(ws, s). length s)")
  fix ws s w
  assume "find (\<lambda>w. w \<noteq> [] \<and> take (length w) s = w) ws = Some (w :: pystr)"
  then have "w \<noteq> [] \<and> take (length w) s = w" by (auto dest: find_SomeD)
  then have "0 < length w" and "length w \<le> length s"
    by (auto dest: arg_cong [where f = length])
  then have "length (drop (length w) s) < length s"
    unfolding length_drop by linarith
  then show "((ws, drop (length w) s), ws, s) \<in> measure (\<lambda>(ws, s). length s)"
    by simp
qed auto

declare strip_seqs.simps [simp del]

definition py_lstrip :: "pystr \<Rightarrow> pystr" where
  "py_lstrip s = strip_seqs py_ws s"

definition py_rstrip :: "pystr \<Rightarrow> pystr" where
  "py_rstrip s = rev (strip_seqs (map rev py_ws) (rev s))"

definition py_strip :: "pystr \<Rightarrow> pystr" where
  "py_strip s = py_rstrip (py_lstrip s)"


subsection \<open>What \<open>str.strip\<close> removes\<close>

lemma strip_seqs_split:
  "\<exists>ps. set ps \<subseteq> set ws \<and> s = concat ps @ strip_seqs ws s"
proof (induction ws s rule: strip_seqs.induct)
  case (1 ws s)
  show ?case
  proof (cases "find (\<lambda>w. w \<noteq> [] \<and> take (length w) s = w) ws")
    case None
    then show ?thesis by (intro exI [of _ "[]"]) (simp add: strip_seqs.simps [of ws s])
  next
    case (Some w)
    then have w: "w \<in> set ws" "take (length w) s = w" by (auto dest: find_SomeD)
    obtain ps where "set ps \<subseteq> set ws" and "drop (length w) s = concat ps @ strip_seqs ws (drop (length w) s)"
      using "1.IH" [OF Some] by blast
    then have "set (w # ps) \<subseteq> set ws \<and> s = concat (w # ps) @ strip_seqs ws s"
      using w Some by (simp add: strip_seqs.simps [of ws s]) (metis append_take_drop_id append.assoc)
    then show ?thesis by blast
  qed
qed

lemma strip_seqs_stop:
  "w \<in> set ws \<Longrightarrow> w \<noteq> [] \<Longrightarrow> take (length w) (strip_seqs ws s) \<noteq> w"
proof (induction ws s rule: strip_seqs.induct)
  case (1 ws s)
  show ?case
  proof (cases "find (\<lambda>w. w \<noteq> [] \<and> take (length w) s = w) ws")
    case None
    then have "strip_seqs ws s = s" by (simp add: strip_seqs.simps [of ws s])
    then show ?thesis using "1.prems" None by (auto simp: find_None_iff)
  next
    case (Some v)
    then show ?thesis using "1.IH" [OF Some "1.prems"] by (simp add: strip_seqs.simps [of ws s])
  qed
qed

lemma py_ws_nonempty: "w \<in> set py_ws \<Longrightarrow> w \<noteq> []"
  by (auto simp: py_ws_def)

lemma take_prefix_eq:
  assumes "take (length w) p = w"
  shows "take (length w) (p @ q) = w"
proof -
  have "length w \<le> length p" using arg_cong [OF assms, of length] by simp
  then show ?thesis using assms by simp
qed

lemma drop_rev_eq:
  assumes "drop (length xs - length w) (rev xs) = w"
  shows "take (length w) xs = rev w"
proof -
  have le: "length w \<le> length xs" using arg_cong [OF assms, of length] by simp
  have "rev (drop (length xs - length w) (rev xs)) = take (length w) xs"
    using le by (simp add: rev_drop)
  then show ?thesis using assms by simp
qed

lemma py_lstrip_split:
  "\<exists>ps. set ps \<subseteq> set py_ws \<and> s = concat ps @ py_lstrip s"
  unfolding py_lstrip_def by (rule strip_seqs_split)

lemma py_rstrip_split:
  "\<exists>qs. set qs \<subseteq> set py_ws \<and> s = py_rstrip s @ concat qs"
proof -
  obtain qs where qs: "set qs \<subseteq> set (map rev py_ws)"
    and s: "rev s = concat qs @ strip_seqs (map rev py_ws) (rev s)"
    using strip_seqs_split by blast
  have "s = py_rstrip s @ concat (rev (map rev qs))"
    using arg_cong [OF s, of rev] by (simp add: py_rstrip_def rev_concat rev_map)
  moreover have "set (rev (map rev qs)) \<subseteq> set py_ws" using qs by auto
  ultimately show ?thesis by blast
qed

lemma py_lstrip_stop:
  assumes "w \<in> set py_ws"
  shows "take (length w) (py_lstrip s) \<noteq> w"
  unfolding py_lstrip_def by (rule strip_seqs_stop [OF assms py_ws_nonempty [OF assms]])

lemma py_rstrip_stop:
  "w \<in> set py_ws \<Longrightarrow> drop (length (py_rstrip s) - length w) (py_rstrip s) \<noteq> w"
proof
  assume w: "w \<in> set py_ws" and d: "drop (length (py_rstrip s) - length w) (py_rstrip s) = w"
  let ?r = "strip_seqs (map rev py_ws) (rev s)"
  have "take (length w) ?r = rev w"
    using drop_rev_eq [of ?r w] d by (simp add: py_rstrip_def)
  moreover have "take (length (rev w)) ?r \<noteq> rev w"
    using w py_ws_nonempty [OF w] by (intro strip_seqs_stop) auto
  ultimately show False by simp
qed

subsection \<open>Properties\<close>

text \<open>
  \<open>str.strip\<close> removes whole whitespace sequences from both ends of the
  string, and its result neither starts nor ends with one.
\<close>

lemma py_strip_spec:
  "\<exists>ps qs. set ps \<subseteq> set py_ws \<and> set qs \<subseteq> set py_ws \<and> s = concat ps @ py_strip s @ concat qs \<and>
     (\<forall>w\<in>set py_ws. take (length w) (py_strip s) \<noteq> w \<and> drop (length (py_strip s) - length w) (py_strip s) \<noteq> w)"
proof -
  obtain ps where ps: "set ps \<subseteq> set py_ws" and s: "s = concat ps @ py_lstrip s"
    using py_lstrip_split by blast
  obtain qs where qs: "set qs \<subseteq> set py_ws" and l: "py_lstrip s = py_rstrip (py_lstrip s) @ concat qs"
    using py_rstrip_split by blast
  have "s = concat ps @ py_strip s @ concat qs" using s l by (metis py_strip_def)
  moreover have "take (length w) (py_strip s) \<noteq> w" if "w \<in> set py_ws" for w
  proof
    assume "take (length w) (py_strip s) = w"
    then have "take (length w) (py_lstrip s) = w"
      using take_prefix_eq [of w "py_strip s" "concat qs"] l by (simp add: py_strip_def)
    with py_lstrip_stop [OF that] show False by simp
  qed
  moreover have "drop (length (py_strip s) - length w) (py_strip s) \<noteq> w" if "w \<in> set py_ws" for w
    using py_rstrip_stop [OF that] by (simp add: py_strip_def)
  ultimately show ?thesis using ps qs by blast
qed

end
