(* ===== verification/Sql_Fragment.thy ===== *)
theory Sql_Fragment
  imports Py_Str
begin

text \<open>
  \<open>HistoryStorage.save_message\<close> builds its \<open>INSERT\<close> statement by string
  interpolation and hands it to SQLite (\<open>sqlite3.Connection.execute\<close>). What
  the statement does therefore depends on how SQLite reads the text. This theory
  models the fragment of SQLite's grammar that the interpolated statement
  lives in: a \<open>VALUES\<close> list of rows of two double-quoted tokens, which SQLite
  (built, as by default, with double-quoted string literals enabled) takes as
  string literals, since no column is in scope there; \<open>""\<close> inside such a
  token is one quote character. Three outcomes:
  \<^item> \<open>Sql_inserted rows\<close>: the text is in the fragment and SQLite inserts
    \<open>rows\<close>, in order;
  \<^item> \<open>Sql_raises\<close>: SQLite or the \<open>sqlite3\<close> module certainly rejects the text
    (an unterminated quoted token, an identifier where a value must be
    followed by a comma or a parenthesis, a NUL character, or a second
    statement after the semicolon), and \<open>execute\<close> raises;
  \<^item> \<open>Sql_unknown\<close>: any other text; its effect is not modelled.
\<close>

datatype sql_outcome = Sql_inserted "(pystr \<times> pystr) list" | Sql_raises | Sql_unknown

datatype 'a sql_parse = Parsed 'a pystr | Syntax_error | Unknown

fun sql_bind :: "'a sql_parse \<Rightarrow> ('a \<Rightarrow> pystr \<Rightarrow> 'b sql_parse) \<Rightarrow> 'b sql_parse" where
  "sql_bind (Parsed v r) f = f v r"
| "sql_bind Syntax_error f = Syntax_error"
| "sql_bind Unknown f = Unknown"

definition dq :: char where
  "dq = CHR 0x22"

subsection \<open>The statement text\<close>

text \<open>\<open>server.py\<close> lines 25--26, the f-string of \<open>save_message\<close>.\<close>

definition insert_prefix :: pystr where
  "insert_prefix = ''INSERT INTO messages(login, message) VALUES ''"

definition insert_sql :: "pystr \<Rightarrow> pystr \<Rightarrow> pystr" where
  "insert_sql login message =
     insert_prefix @ CHR ''('' # dq # login @ dq # CHR '','' # CHR '' '' # dq # message @ [dq, CHR '')'']"

subsection \<open>SQLite's tokens\<close>

text \<open>
  Whitespace of SQLite's tokenizer (\<open>tokenize.c\<close>, class \<open>CC_SPACE\<close>): tab,
  newline, form feed, carriage return and space.
\<close>

definition sql_space :: "char \<Rightarrow> bool" where
  "sql_space c \<longleftrightarrow> c \<in> set [CHR 0x09, CHR 0x0A, CHR 0x0C, CHR 0x0D, CHR 0x20]"

text \<open>
  Comments are whitespace too (\<open>CC_MINUS\<close>, \<open>CC_SLASH\<close>): \<open>--\<close> runs to the
  end of the line, \<open>/*\<close> to the next \<open>*/\<close> or to the end of the text. The
  \<open>*\<close> of the opening \<open>/*\<close> does not close it, and a \<open>/*\<close> that ends the text
  is a slash. \<open>block_comment_end\<close> is the text after the comment, from the
  character after the opening \<open>/*\<close>.
\<close>

fun block_comment_end :: "pystr \<Rightarrow> pystr" where
  "block_comment_end [] = []"
| "block_comment_end [c] = []"
| "block_comment_end (c # d # r) =
     (if c = CHR ''*'' \<and> d = CHR ''/'' then r else block_comment_end (d # r))"

lemma block_comment_end_length: "length (block_comment_end s) \<le> length s"
  by (induction s rule: block_comment_end.induct) auto

lemma comment_rest_length:
  "length (dropWhile P (tl cs)) \<le> length cs" "length (block_comment_end (tl cs)) \<le> length cs"
  using length_dropWhile_le [of P "tl cs"] block_comment_end_length [of "tl cs"] by auto

function skip_ws :: "pystr \<Rightarrow> pystr" where
  "skip_ws [] = []"
| "skip_ws (c # cs) =
     (if sql_space c then skip_ws cs
      else if c = CHR ''-'' \<and> take 1 cs = ''-'' then skip_ws (dropWhile (\<lambda>d. d \<noteq> CHR 0x0A) (tl cs))
      else if c = CHR ''/'' \<and> take 1 cs = ''*'' \<and> tl cs \<noteq> [] then skip_ws (block_comment_end (tl cs))
      else c # cs)"
  by pat_completeness auto
termination
  by (relation "measure length")
     (auto simp: less_Suc_eq_le comment_rest_length)

text \<open>
  The text after the statement's semicolon, as the \<open>sqlite3\<close> module skips it
  before it refuses a second statement (\<open>lstrip_sql\<close> of CPython's
  \<open>_sqlite/statement.c\<close>): whitespace and the same comments, except that an
  unclosed \<open>/*\<close> runs to the end of the text however short.
\<close>

function lstrip_sql :: "pystr \<Rightarrow> pystr" where
  "lstrip_sql [] = []"
| "lstrip_sql (c # cs) =
     (if sql_space c then lstrip_sql cs
      else if c = CHR ''-'' \<and> take 1 cs = ''-'' then lstrip_sql (dropWhile (\<lambda>d. d \<noteq> CHR 0x0A) (tl cs))
      else if c = CHR ''/'' \<and> take 1 cs = ''*'' then lstrip_sql (block_comment_end (tl cs))
      else c # cs)"
  by pat_completeness auto
termination
  by (relation "measure length")
     (auto simp: less_Suc_eq_le comment_rest_length)

text \<open>
  The body of a double-quoted token, after its opening quote: its value and
  the text after the closing quote, or \<open>None\<close> when the token is not closed.
\<close>

fun dq_body :: "pystr \<Rightarrow> (pystr \<times> pystr) option" where
  "dq_body [] = None"
| "dq_body (c # cs) =
     (if c = dq then
        (case cs of
           d # ds \<Rightarrow> (if d = dq then map_option (\<lambda>(v, r). (dq # v, r)) (dq_body ds) else Some ([], cs))
         | [] \<Rightarrow> Some ([], []))
      else map_option (\<lambda>(v, r). (c # v, r)) (dq_body cs))"

text \<open>
  Identifier characters (\<open>IdChar\<close>): letters, digits, \<open>_\<close>, \<open>$\<close> and every
  byte from 0x80. A word starts with a letter, \<open>_\<close> or a byte from 0x80.
\<close>

definition sql_id_char :: "char \<Rightarrow> bool" where
  "sql_id_char c \<longleftrightarrow>
     byte_in c 48 57 \<or> byte_in c 65 90 \<or> byte_in c 97 122 \<or> c = CHR ''_'' \<or> c = CHR ''$''
     \<or> 128 \<le> (of_char c :: nat)"

definition sql_word_start :: "char \<Rightarrow> bool" where
  "sql_word_start c \<longleftrightarrow>
     byte_in c 65 90 \<or> byte_in c 97 122 \<or> c = CHR ''_'' \<or> 128 \<le> (of_char c :: nat)"

definition ascii_upper :: "char \<Rightarrow> char" where
  "ascii_upper c = (if byte_in c 97 122 then char_of (of_char c - (32::nat)) else c)"

text \<open>SQLite's 147 keywords (\<open>mkkeywordhash.c\<close>), compared without case.\<close>

definition sql_keywords :: "pystr list" where
  "sql_keywords = [
   ''ABORT'', ''ACTION'', ''ADD'', ''AFTER'', ''ALL'', ''ALTER'', ''ALWAYS'', ''ANALYZE'', ''AND'',
   ''AS'', ''ASC'', ''ATTACH'', ''AUTOINCREMENT'', ''BEFORE'', ''BEGIN'', ''BETWEEN'', ''BY'',
   ''CASCADE'', ''CASE'', ''CAST'', ''CHECK'', ''COLLATE'', ''COLUMN'', ''COMMIT'', ''CONFLICT'',
   ''CONSTRAINT'', ''CREATE'', ''CROSS'', ''CURRENT'', ''CURRENT_DATE'', ''CURRENT_TIME'',
   ''CURRENT_TIMESTAMP'', ''DATABASE'', ''DEFAULT'', ''DEFERRABLE'', ''DEFERRED'', ''DELETE'',
   ''DESC'', ''DETACH'', ''DISTINCT'', ''DO'', ''DROP'', ''EACH'', ''ELSE'', ''END'', ''ESCAPE'',
   ''EXCEPT'', ''EXCLUDE'', ''EXCLUSIVE'', ''EXISTS'', ''EXPLAIN'', ''FAIL'', ''FILTER'', ''FIRST'',
   ''FOLLOWING'', ''FOR'', ''FOREIGN'', ''FROM'', ''FULL'', ''GENERATED'', ''GLOB'', ''GROUP'',
   ''GROUPS'', ''HAVING'', ''IF'', ''IGNORE'', ''IMMEDIATE'', ''IN'', ''INDEX'', ''INDEXED'',
   ''INITIALLY'', ''INNER'', ''INSERT'', ''INSTEAD'', ''INTERSECT'', ''INTO'', ''IS'', ''ISNULL'',
   ''JOIN'', ''KEY'', ''LAST'', ''LEFT'', ''LIKE'', ''LIMIT'', ''MATCH'', ''MATERIALIZED'',
   ''NATURAL'', ''NO'', ''NOT'', ''NOTHING'', ''NOTNULL'', ''NULL'', ''NULLS'', ''OF'', ''OFFSET'',
   ''ON'', ''OR'', ''ORDER'', ''OTHERS'', ''OUTER'', ''OVER'', ''PARTITION'', ''PLAN'', ''PRAGMA'',
   ''PRECEDING'', ''PRIMARY'', ''QUERY'', ''RAISE'', ''RANGE'', ''RECURSIVE'', ''REFERENCES'',
   ''REGEXP'', ''REINDEX'', ''RELEASE'', ''RENAME'', ''REPLACE'', ''RESTRICT'', ''RETURNING'',
   ''RIGHT'', ''ROLLBACK'', ''ROW'', ''ROWS'', ''SAVEPOINT'', ''SELECT'', ''SET'', ''TABLE'',
   ''TEMP'', ''TEMPORARY'', ''THEN'', ''TIES'', ''TO'', ''TRANSACTION'', ''TRIGGER'',
   ''UNBOUNDED'', ''UNION'', ''UNIQUE'', ''UPDATE'', ''USING'', ''VACUUM'', ''VALUES'', ''VIEW'',
   ''VIRTUAL'', ''WHEN'', ''WHERE'', ''WINDOW'', ''WITH'', ''WITHOUT'']"

text \<open>
  A token that SQLite reads as an identifier: a closed double-quoted token,
  or a word that is no keyword (and no blob literal \<open>x'..'\<close>).
\<close>

definition starts_identifier :: "pystr \<Rightarrow> bool" where
  "starts_identifier s =
     (case s of
        [] \<Rightarrow> False
      | c # cs \<Rightarrow>
          (if c = dq then dq_body cs \<noteq> None
           else sql_word_start c \<and>
             (let w = takeWhile sql_id_char s; r = dropWhile sql_id_char s in
              map ascii_upper w \<notin> set sql_keywords \<and> take 1 r \<noteq> [CHR 0x27])))"

subsection \<open>The fragment's grammar\<close>

text \<open>A value of a row: a double-quoted token.\<close>

definition parse_dq :: "pystr \<Rightarrow> pystr sql_parse" where
  "parse_dq s =
     (case s of
        c # cs \<Rightarrow>
          (if c = dq then (case dq_body cs of None \<Rightarrow> Syntax_error | Some (v, r) \<Rightarrow> Parsed v r)
           else Unknown)
      | [] \<Rightarrow> Unknown)"

text \<open>
  After a value SQLite expects the punctuation \<open>p\<close> (a comma or the closing
  parenthesis) or an operator; an identifier there is a syntax error. The other
  punctuation ends the row after one value or opens a third: the row does not
  have the two values of \<open>messages(login, message)\<close>, which SQLite refuses
  ("1 values for 2 columns", "3 values for 2 columns", or "all VALUES must
  have the same number of terms" in a later row).
\<close>

definition after_value :: "char \<Rightarrow> pystr \<Rightarrow> unit sql_parse" where
  "after_value p s =
     (case s of
        c # cs \<Rightarrow>
          (if c = p then Parsed () cs
           else if c = CHR '','' \<or> c = CHR '')'' then Syntax_error
           else if starts_identifier s then Syntax_error else Unknown)
      | [] \<Rightarrow> Unknown)"

definition parse_row :: "pystr \<Rightarrow> (pystr \<times> pystr) sql_parse" where
  "parse_row s =
     (case skip_ws s of
        c # r \<Rightarrow>
          (if c = CHR ''('' then
             sql_bind (parse_dq (skip_ws r)) (\<lambda>l r1.
             sql_bind (after_value (CHR '','') (skip_ws r1)) (\<lambda>_ r2.
             sql_bind (parse_dq (skip_ws r2)) (\<lambda>m r3.
             sql_bind (after_value (CHR '')'') (skip_ws r3)) (\<lambda>_ r4. Parsed (l, m) r4))))
           else Unknown)
      | [] \<Rightarrow> Unknown)"

subsection \<open>Every parser consumes text\<close>

lemma skip_ws_length: "length (skip_ws s) \<le> length s"
  by (induction s rule: skip_ws.induct)
     (auto intro: le_SucI order_trans comment_rest_length)

lemma dq_body_length: "dq_body s = Some (v, r) \<Longrightarrow> length r < length s"
  by (induction s arbitrary: v rule: dq_body.induct)
     (fastforce split: if_splits list.splits)+

lemma parse_dq_length: "parse_dq s = Parsed v r \<Longrightarrow> length r < length s"
  by (auto simp: parse_dq_def split: list.splits if_splits option.splits dest: dq_body_length)

lemma after_value_length: "after_value p s = Parsed u r \<Longrightarrow> length r < length s"
  by (auto simp: after_value_def split: list.splits if_splits)

lemma sql_bind_Parsed:
  "sql_bind x f = Parsed v r \<Longrightarrow> \<exists>w q. x = Parsed w q \<and> f w q = Parsed v r"
  by (cases x) auto

lemma parse_row_length: "parse_row s = Parsed row r \<Longrightarrow> length r < length s"
proof -
  assume p: "parse_row s = Parsed row r"
  then obtain rest where s: "skip_ws s = CHR ''('' # rest"
    by (auto simp: parse_row_def split: list.splits if_splits)
  from p s obtain l r1 u r2 m r3 w where
      d1: "parse_dq (skip_ws rest) = Parsed l r1"
      and a1: "after_value (CHR '','') (skip_ws r1) = Parsed u r2"
      and d2: "parse_dq (skip_ws r2) = Parsed m r3"
      and a2: "after_value (CHR '')'') (skip_ws r3) = Parsed w r"
    by (auto simp: parse_row_def dest!: sql_bind_Parsed)
  have "length r < length (skip_ws r3)" using a2 by (rule after_value_length)
  also have "\<dots> < length (skip_ws r2)"
    using skip_ws_length [of r3] parse_dq_length [OF d2] by simp
  also have "\<dots> < length (skip_ws r1)"
    using skip_ws_length [of r2] after_value_length [OF a1] by simp
  also have "\<dots> < length (skip_ws rest)"
    using skip_ws_length [of r1] parse_dq_length [OF d1] by simp
  also have "\<dots> < length s"
    using skip_ws_length [of rest] skip_ws_length [of s] s by simp
  finally show ?thesis .
qed

subsection \<open>Rows and statements\<close>

text \<open>
  A comma-separated list of rows, then the end of the text or a semicolon.
  After the semicolon only whitespace and comments may follow: \<open>sqlite3\<close>
  refuses a second statement ("You can only execute one statement at a
  time").
\<close>

function parse_rows :: "pystr \<Rightarrow> (pystr \<times> pystr) list sql_parse" where
  "parse_rows s =
     (case parse_row s of
        Parsed row r \<Rightarrow>
          (case skip_ws r of
             [] \<Rightarrow> Parsed [row] []
           | c # cs \<Rightarrow>
               (if c = CHR '','' then sql_bind (parse_rows cs) (\<lambda>rows r'. Parsed (row # rows) r')
                else if c = CHR '';'' then
                  (if lstrip_sql cs = [] then Parsed [row] [] else Syntax_error)
                else Unknown))
      | Syntax_error \<Rightarrow> Syntax_error
      | Unknown \<Rightarrow> Unknown)"
  by pat_completeness auto
termination
proof (relation "measure length")
  fix s row r c cs
  assume "parse_row s = Parsed row r" and "skip_ws r = c # cs"
  then have "length cs < length s"
    using parse_row_length [of s row r] skip_ws_length [of r] by simp
  then show "(cs, s) \<in> measure length" by simp
qed auto

declare parse_rows.simps [simp del]

text \<open>
  \<open>execute(sql)\<close>: the \<open>sqlite3\<close> module refuses a statement containing a NUL
  character; otherwise SQLite reads it.
\<close>

definition sql_exec_insert :: "pystr \<Rightarrow> sql_outcome" where
  "sql_exec_insert q =
     (if CHR 0x00 \<in> set q then Sql_raises
      else if take (length insert_prefix) q = insert_prefix then
        (case parse_rows (drop (length insert_prefix) q) of
           Parsed rows _ \<Rightarrow> Sql_inserted rows
         | Syntax_error \<Rightarrow> Sql_raises
         | Unknown \<Rightarrow> Sql_unknown)
      else Sql_unknown)"

subsection \<open>Rows of the statement\<close>

text \<open>
  \<open>sql_row a b\<close> is the text of one \<open>VALUES\<close> row as the f-string writes it.
  \<open>dq_double v\<close> is \<open>v\<close> with every double quote doubled: the text a
  double-quoted token must hold to have the value \<open>v\<close>. \<open>sql_rows_text rs\<close>
  is the text of further rows, each after a comma, whose values are \<open>rs\<close>.
\<close>

definition sql_row :: "pystr \<Rightarrow> pystr \<Rightarrow> pystr" where
  "sql_row a b = CHR ''('' # dq # a @ dq # CHR '','' # CHR '' '' # dq # b @ [dq, CHR '')'']"

fun dq_double :: "pystr \<Rightarrow> pystr" where
  "dq_double [] = []"
| "dq_double (c # cs) = (if c = dq then dq # dq # dq_double cs else c # dq_double cs)"

definition sql_rows_text :: "(pystr \<times> pystr) list \<Rightarrow> pystr" where
  "sql_rows_text rs =
     concat (map (\<lambda>(a, b). CHR '','' # CHR '' '' # sql_row (dq_double a) (dq_double b)) rs)"

subsection \<open>What a statement of rows inserts\<close>

lemma skip_ws_nonspace [simp]:
  "\<not> sql_space c \<Longrightarrow> c \<noteq> CHR ''-'' \<Longrightarrow> c \<noteq> CHR ''/'' \<Longrightarrow> skip_ws (c # s) = c # s"
  by simp

lemma sql_space_simps [simp]:
  "\<not> sql_space dq" "\<not> sql_space CHR ''('' " "\<not> sql_space CHR '')''" "\<not> sql_space CHR '',''"
  "sql_space CHR '' ''"
  by (simp_all add: sql_space_def dq_def)

lemma skip_ws_space [simp]: "skip_ws (CHR '' '' # s) = skip_ws s"
  by (simp add: sql_space_def)

lemma dq_neq [simp]: "dq \<noteq> CHR '',''" "dq \<noteq> CHR '')''" "CHR 0x00 \<noteq> dq"
  "CHR '','' \<noteq> dq" "CHR '')'' \<noteq> dq" "dq \<noteq> CHR ''-''" "dq \<noteq> CHR ''/''"
  by (simp_all add: dq_def)

lemma set_dq_double [simp]: "set (dq_double v) = set v"
  by (induction v) auto

lemma dq_double_id [simp]: "dq \<notin> set v \<Longrightarrow> dq_double v = v"
  by (induction v) auto

lemma dq_double_eq_iff: "dq_double v = v \<longleftrightarrow> dq \<notin> set v"
proof
  have "length (dq_double v) = length v + length (filter (\<lambda>c. c = dq) v)"
    by (induction v) auto
  moreover assume "dq_double v = v"
  ultimately have "filter (\<lambda>c. c = dq) v = []" by simp
  then show "dq \<notin> set v" by (auto simp: filter_empty_conv)
qed simp

text \<open>A quoted token holding \<open>dq_double v\<close> has the value \<open>v\<close>.\<close>

lemma dq_body_double: "take 1 r \<noteq> [dq] \<Longrightarrow> dq_body (dq_double v @ dq # r) = Some (v, r)"
  by (induction v) (auto split: list.splits)

lemma dq_body_closed:
  "dq \<notin> set v \<Longrightarrow> take 1 r \<noteq> [dq] \<Longrightarrow> dq_body (v @ dq # r) = Some (v, r)"
  using dq_body_double [of r v] by simp

lemma parse_row_sql_row_double:
  "parse_row (sql_row (dq_double a) (dq_double b) @ r) = Parsed (a, b) r"
  by (simp add: sql_row_def parse_row_def parse_dq_def after_value_def dq_body_double)

lemma parse_row_sql_row:
  "dq \<notin> set a \<Longrightarrow> dq \<notin> set b \<Longrightarrow> parse_row (sql_row a b @ r) = Parsed (a, b) r"
  using parse_row_sql_row_double [of a b r] by simp

lemma parse_rows_space [simp]: "parse_rows (CHR '' '' # s) = parse_rows s"
  by (simp add: parse_rows.simps [of "CHR '' '' # s"] parse_rows.simps [of s] parse_row_def)

lemma parse_rows_double_Cons:
  "parse_rows (sql_row (dq_double a) (dq_double b) @ CHR '','' # rest) =
     sql_bind (parse_rows rest) (\<lambda>rows r'. Parsed ((a, b) # rows) r')"
  using parse_row_sql_row_double [of a b "CHR '','' # rest"]
  by (simp add: parse_rows.simps [of "sql_row _ _ @ _"] sql_space_def)

lemma parse_rows_sql_row_Cons:
  "dq \<notin> set a \<Longrightarrow> dq \<notin> set b \<Longrightarrow>
   parse_rows (sql_row a b @ CHR '','' # rest) = sql_bind (parse_rows rest) (\<lambda>rows r'. Parsed ((a, b) # rows) r')"
  using parse_rows_double_Cons [of a b rest] by simp

lemma parse_rows_double_end:
  "parse_rows (sql_row (dq_double a) (dq_double b)) = Parsed [(a, b)] []"
  using parse_row_sql_row_double [of a b "[]"] by (simp add: parse_rows.simps [of "sql_row _ _"])

text \<open>
  Rows followed by a \<open>--\<close> comment: the comment hides the rest of the line,
  whatever it holds.
\<close>

lemma parse_rows_comment_tail:
  assumes "CHR 0x0A \<notin> set t"
  shows "parse_rows (sql_row (dq_double a) (dq_double b) @ sql_rows_text rs @ ''--'' @ t)
           = Parsed ((a, b) # rs) []"
proof (induction rs arbitrary: a b)
  case Nil
  have d: "dropWhile (\<lambda>d. d \<noteq> CHR 0x0A) t = []" using assms by (auto simp: dropWhile_eq_Nil_conv)
  show ?case
    using parse_row_sql_row_double [of a b "''--'' @ t"]
    by (simp add: d parse_rows.simps [of "sql_row _ _ @ _"] sql_rows_text_def sql_space_def)
next
  case (Cons r rs)
  then show ?case
    by (cases r) (simp add: sql_rows_text_def parse_rows_double_Cons)
qed

lemma insert_prefix_no_nul: "CHR 0x00 \<notin> set insert_prefix"
  by (simp add: insert_prefix_def)

lemma insert_sql_row: "insert_sql l m = insert_prefix @ sql_row l m"
  by (simp add: insert_sql_def sql_row_def)

lemma sql_exec_insert_prefix:
  "CHR 0x00 \<notin> set r \<Longrightarrow>
   sql_exec_insert (insert_prefix @ r) =
     (case parse_rows r of Parsed rows _ \<Rightarrow> Sql_inserted rows | Syntax_error \<Rightarrow> Sql_raises | Unknown \<Rightarrow> Sql_unknown)"
  by (simp add: sql_exec_insert_def insert_prefix_no_nul)

lemma sql_row_no_nul [simp]: "CHR 0x00 \<in> set (sql_row a b) \<longleftrightarrow> CHR 0x00 \<in> set a \<or> CHR 0x00 \<in> set b"
  by (auto simp: sql_row_def)

lemma sql_rows_text_no_nul:
  "CHR 0x00 \<notin> set (sql_rows_text rs) \<longleftrightarrow> list_all (\<lambda>(a, b). CHR 0x00 \<notin> set a \<and> CHR 0x00 \<notin> set b) rs"
  by (induction rs) (auto simp: sql_rows_text_def)

text \<open>
  The statement with escaped values inserts the values: \<open>sqlite3\<close> receives
  \<open>dq_double l\<close> and \<open>dq_double m\<close> and SQLite stores \<open>l\<close> and \<open>m\<close>.
\<close>

lemma sql_exec_insert_escaped:
  assumes "CHR 0x00 \<notin> set l" "CHR 0x00 \<notin> set m"
  shows "sql_exec_insert (insert_sql (dq_double l) (dq_double m)) = Sql_inserted [(l, m)]"
  using assms parse_rows_double_end [of l m]
  by (simp add: insert_sql_row sql_exec_insert_prefix)

lemma sql_exec_insert_plain:
  assumes "dq \<notin> set login" "dq \<notin> set message"
    and "CHR 0x00 \<notin> set login" "CHR 0x00 \<notin> set message"
  shows "sql_exec_insert (insert_sql login message) = Sql_inserted [(login, message)]"
  using sql_exec_insert_escaped [OF assms(3,4)] assms(1,2) by simp

end
