(* ===== verification/History.thy ===== *)
theory History
  imports Sql_Fragment
begin

text \<open>
  \<open>HistoryStorage\<close> (\<open>server.py\<close> lines 11--32): the message log, an in-memory
  SQLite table \<open>messages(id INTEGER PRIMARY KEY AUTOINCREMENT, login,
  message)\<close>. Its state is the table's rows in insertion order and the
  AUTOINCREMENT counter (SQLite's \<open>sqlite_sequence\<close> entry for the table).
  \<open>save_message\<close> runs the interpolated \<open>INSERT\<close> through the SQL fragment
  of \<open>Sql_Fragment\<close>; \<open>take_history\<close> is the query
  \<open>SELECT login, message FROM messages ORDER BY id DESC LIMIT n\<close> followed by
  Python's reversal \<open>[::-1]\<close>.
\<close>

record history_storage =
  messages :: "(nat \<times> pystr \<times> pystr) list"
  seq :: nat

text \<open>\<open>HistoryStorage.__init__\<close> and \<open>_create_table\<close>: an empty table.\<close>

definition history_init :: history_storage where
  "history_init = \<lparr>messages = [], seq = 0\<rparr>"

text \<open>
  An AUTOINCREMENT key is one more than the largest key the table ever had
  (the larger of the counter and the largest key present); the counter
  follows it. A multi-row \<open>INSERT\<close> numbers its rows in order.
\<close>

definition next_id :: "history_storage \<Rightarrow> nat" where
  "next_id h = Suc (max (seq h) (fold max (map fst (messages h)) 0))"

fun insert_rows :: "(pystr \<times> pystr) list \<Rightarrow> history_storage \<Rightarrow> history_storage" where
  "insert_rows [] h = h"
| "insert_rows ((l, m) # rs) h =
     insert_rows rs (h\<lparr>messages := messages h @ [(next_id h, l, m)], seq := next_id h\<rparr>)"

definition save_message :: "pystr \<Rightarrow> pystr \<Rightarrow> history_storage \<Rightarrow> history_storage py_result" where
  "save_message login message h =
     (case sql_exec_insert (insert_sql login message) of
        Sql_inserted rs \<Rightarrow> Ok (insert_rows rs h)
      | Sql_raises \<Rightarrow> Exc SqliteError h
      | Sql_unknown \<Rightarrow> Outside_model)"

text \<open>
  SQLite's \<open>LIMIT n\<close> with a negative \<open>n\<close> sets no limit. The key is unique,
  so ordering by it descending is the reverse of the sort by it.
\<close>

definition sql_limit :: "int \<Rightarrow> 'a list \<Rightarrow> 'a list" where
  "sql_limit n xs = (if n < 0 then xs else take (nat n) xs)"

definition take_history :: "int \<Rightarrow> history_storage \<Rightarrow> (pystr \<times> pystr) list" where
  "take_history limit h = rev (map snd (sql_limit limit (rev (sort_key fst (messages h)))))"

subsection \<open>The log's invariant\<close>

text \<open>
  Keys strictly increase in insertion order and none exceeds the counter.
\<close>

definition history_inv :: "history_storage \<Rightarrow> bool" where
  "history_inv h \<longleftrightarrow> sorted_wrt (<) (map fst (messages h)) \<and> (\<forall>(i, _) \<in> set (messages h). i \<le> seq h)"

text \<open>
  The table is never deleted from, so the AUTOINCREMENT keys are exactly
  \<open>1, 2, \<dots>, n\<close> for \<open>n\<close> saved rows, and the counter is \<open>n\<close>.
\<close>

definition dense_log :: "history_storage \<Rightarrow> bool" where
  "dense_log h \<longleftrightarrow> map fst (messages h) = [1..<Suc (length (messages h))] \<and> seq h = length (messages h)"

lemma fold_max_ge: "x \<in> set xs \<Longrightarrow> x \<le> fold max xs (a :: nat)"
  by (simp flip: Max.set_eq_fold)

lemma next_id_greater:
  assumes "(i, r) \<in> set (messages h)"
  shows "i < next_id h"
proof -
  have "i \<in> set (map fst (messages h))" using assms by force
  then have "i \<le> fold max (map fst (messages h)) 0" by (rule fold_max_ge)
  then show ?thesis by (simp add: next_id_def)
qed

lemma history_inv_init: "history_inv history_init"
  by (simp add: history_inv_def history_init_def)

lemma insert_rows_inv: "history_inv h \<Longrightarrow> history_inv (insert_rows rs h)"
proof (induction rs arbitrary: h)
  case Nil
  then show ?case by simp
next
  case (Cons r rs)
  obtain l m where r: "r = (l, m)" by fastforce
  let ?h = "h\<lparr>messages := messages h @ [(next_id h, l, m)], seq := next_id h\<rparr>"
  have "history_inv ?h"
    using Cons.prems next_id_greater [of _ _ h]
    by (fastforce simp: history_inv_def sorted_wrt_append less_imp_le)
  then show ?case by (simp add: r Cons.IH)
qed

lemma insert_rows_messages:
  "map snd (messages (insert_rows rs h)) = map snd (messages h) @ rs"
  by (induction rs arbitrary: h) auto


lemma strict_sorted_sorted: "sorted_wrt (<) xs \<Longrightarrow> sorted (xs :: nat list)"
  by (erule sorted_wrt_mono_rel [rotated]) simp

subsection \<open>The most recent messages, oldest first\<close>

text \<open>
  Under the invariant the query returns the last \<open>n\<close> messages in the order
  they were saved: the descending scan, cut at \<open>n\<close> and reversed, is the
  suffix of the log.
\<close>

lemma take_history_eq_last:
  assumes "history_inv h" and "0 \<le> n"
  shows "take_history n h = drop (length (messages h) - nat n) (map snd (messages h))"
proof -
  have "sorted (map fst (messages h))"
    using assms(1) by (simp add: history_inv_def strict_sorted_sorted)
  then have "sort_key fst (messages h) = messages h" by (rule sort_key_id_if_sorted)
  moreover have "rev (map snd (take k (rev xs))) = drop (length xs - k) (map snd xs)" for k xs
    by (simp add: rev_map rev_take drop_map)
  ultimately show ?thesis
    using assms(2) by (simp add: take_history_def sql_limit_def)
qed

subsection \<open>Saving\<close>

lemma save_message_inv:
  "history_inv h \<Longrightarrow> save_message l m h = Ok h' \<Longrightarrow> history_inv h'"
  by (auto simp: save_message_def insert_rows_inv split: sql_outcome.splits)

lemma fold_max_upt: "fold max [1..<Suc n] (0 :: nat) = n"
  by (induction n) simp_all

lemma dense_log_next_id:
  assumes "dense_log h"
  shows "next_id h = Suc (length (messages h))"
proof -
  have "map fst (messages h) = [1..<Suc (length (messages h))]" and "seq h = length (messages h)"
    using assms by (simp_all add: dense_log_def)
  then show ?thesis unfolding next_id_def by (simp only: fold_max_upt max.idem)
qed

lemma insert_rows_dense: "dense_log h \<Longrightarrow> dense_log (insert_rows rs h)"
proof (induction rs arbitrary: h)
  case Nil
  then show ?case by simp
next
  case (Cons r rs)
  obtain l m where r: "r = (l, m)" by fastforce
  have "dense_log (h\<lparr>messages := messages h @ [(next_id h, l, m)], seq := next_id h\<rparr>)"
    using Cons.prems dense_log_next_id [OF Cons.prems] by (simp add: dense_log_def)
  then show ?case by (simp add: r Cons.IH)
qed

lemma save_message_dense: "dense_log h \<Longrightarrow> save_message l m h = Ok h' \<Longrightarrow> dense_log h'"
  by (auto simp: save_message_def insert_rows_dense split: sql_outcome.splits)

lemma save_message_Exc: "save_message l m h = Exc e h' \<Longrightarrow> h' = h"
  by (simp add: save_message_def split: sql_outcome.splits)

text \<open>
  A login and a message whose quotes are all doubled are saved as the values
  they escape: SQLite stores \<open>l\<close> and \<open>m\<close>, not the texts it was given.
\<close>

lemma save_message_escaped:
  "CHR 0x00 \<notin> set l \<Longrightarrow> CHR 0x00 \<notin> set m \<Longrightarrow>
   save_message (dq_double l) (dq_double m) h = Ok (insert_rows [(l, m)] h)"
  by (simp add: save_message_def sql_exec_insert_escaped)

lemma save_message_plain:
  "dq \<notin> set l \<Longrightarrow> dq \<notin> set m \<Longrightarrow> CHR 0x00 \<notin> set l \<Longrightarrow> CHR 0x00 \<notin> set m \<Longrightarrow>
   save_message l m h = Ok (insert_rows [(l, m)] h)"
  using save_message_escaped [of l m h] by simp

lemma last_take_history_insert:
  assumes "history_inv h" and "0 < n"
  shows "last (take_history n (insert_rows [(l, m)] h)) = (l, m)"
proof -
  let ?h' = "insert_rows [(l, m)] h"
  have inv: "history_inv ?h'" using assms(1) by (rule insert_rows_inv)
  have ms: "map snd (messages ?h') = map snd (messages h) @ [(l, m)]"
    by (rule insert_rows_messages)
  then have "length (messages ?h') = Suc (length (messages h))"
    using arg_cong [OF ms, of length] by simp
  then have "length (messages ?h') - nat n < length (map snd (messages ?h'))"
    using assms(2) by simp
  then show ?thesis
    using ms take_history_eq_last [OF inv] assms(2) by (simp add: last_drop)
qed


lemma take_history_insert_snoc:
  assumes "history_inv h" and "0 < n"
  shows "take_history n (insert_rows [(l, m)] h) =
           drop (Suc (length (messages h)) - nat n) (map snd (messages h)) @ [(l, m)]"
proof -
  let ?h' = "insert_rows [(l, m)] h"
  have inv: "history_inv ?h'" using assms(1) by (rule insert_rows_inv)
  have ms: "map snd (messages ?h') = map snd (messages h) @ [(l, m)]"
    by (rule insert_rows_messages)
  then have "length (messages ?h') = Suc (length (messages h))"
    using arg_cong [OF ms, of length] by simp
  then show ?thesis
    using ms take_history_eq_last [OF inv] assms(2) by simp
qed

subsection \<open>Quotes in the interpolated text\<close>

text \<open>
  A message with a quoted word (\<open>v"hi"\<close>) closes the value early and leaves an
  identifier where a comma or parenthesis must follow: SQLite rejects the
  statement and \<open>execute\<close> raises.
\<close>

lemma save_message_quote_raises:
  assumes "dq \<notin> set l" "dq \<notin> set v" and "CHR 0x00 \<notin> set (l @ v)"
  shows "save_message l (v @ dq # ''hi'' @ [dq]) h = Exc SqliteError h"
proof -
  have q: "insert_sql l (v @ dq # ''hi'' @ [dq]) =
      insert_prefix @ CHR ''('' # dq # l @ dq # CHR '','' # CHR '' '' # dq # v @ dq # ''hi'' @ [dq, dq, CHR '')'']"
    by (simp add: insert_sql_def)
  have w: "starts_identifier (''hi'' @ [dq, dq, CHR '')''])"
    by code_simp
  have "parse_row (CHR ''('' # dq # l @ dq # CHR '','' # CHR '' '' # dq # v @ dq # ''hi'' @ [dq, dq, CHR '')'']) = Syntax_error"
  proof -
    have "CHR ''h'' \<noteq> dq" "\<not> sql_space CHR ''h''" by (simp_all add: dq_def sql_space_def)
    then show ?thesis
      using assms(1,2) w by (simp add: parse_row_def parse_dq_def after_value_def dq_body_closed)
  qed
  then have "parse_rows (CHR ''('' # dq # l @ dq # CHR '','' # CHR '' '' # dq # v @ dq # ''hi'' @ [dq, dq, CHR '')'']) = Syntax_error"
    by (simp add: parse_rows.simps [of "CHR ''('' # _"])
  moreover have "CHR 0x00 \<notin> set (insert_sql l (v @ dq # ''hi'' @ [dq]))"
    unfolding q using assms(3) insert_prefix_no_nul by simp
  ultimately show ?thesis unfolding save_message_def sql_exec_insert_def q by simp
qed

text \<open>
  A quote followed by a comma ends the message's value and opens a third value
  in the row: SQLite refuses the statement whatever follows.
\<close>

lemma save_message_comma_raises:
  assumes "CHR 0x00 \<notin> set (l @ v @ w)"
  shows "save_message (dq_double l) (dq_double v @ dq # CHR '','' # w) h = Exc SqliteError h"
proof -
  have q: "insert_sql (dq_double l) (dq_double v @ dq # CHR '','' # w) = insert_prefix @
      CHR ''('' # dq # dq_double l @ dq # CHR '','' # CHR '' '' # dq # dq_double v @ dq # CHR '','' # w @ [dq, CHR '')'']"
    by (simp add: insert_sql_def)
  have "parse_rows (CHR ''('' # dq # dq_double l @ dq # CHR '','' # CHR '' '' # dq # dq_double v @ dq # CHR '','' # w @ [dq, CHR '')''])
      = Syntax_error"
    by (simp add: parse_rows.simps [of "CHR ''('' # _"] parse_row_def parse_dq_def after_value_def dq_body_double)
  then show ?thesis
    using assms unfolding save_message_def q by (simp add: sql_exec_insert_prefix)
qed

subsection \<open>Properties\<close>

text \<open>
  C6: \<open>take_history n\<close> (for \<open>n \<ge> 0\<close>) returns the last \<open>n\<close> saved messages,
  or all of them when there are fewer, in the order they were saved: the
  descending query, cut and reversed, equals the suffix of the log, and has
  \<open>min n (number of messages)\<close> entries.
\<close>

theorem take_history_recent:
  assumes "history_inv h" and "0 \<le> n"
  shows "take_history n h = drop (length (messages h) - nat n) (map snd (messages h))
    \<and> length (take_history n h) = min (nat n) (length (messages h))"
  using take_history_eq_last [OF assms] by simp

theorem take_history_recent_witness:
  "take_history 2 (insert_rows [(''a'', ''1''), (''b'', ''2''), (''c'', ''3'')] history_init)
     = [(''b'', ''2''), (''c'', ''3'')]
   \<and> length (take_history 2 (insert_rows [(''a'', ''1''), (''b'', ''2''), (''c'', ''3'')] history_init)) = 2"
proof -
  have inv: "history_inv (insert_rows [(''a'', ''1''), (''b'', ''2''), (''c'', ''3'')] history_init)"
    by (rule insert_rows_inv [OF history_inv_init])
  show ?thesis
    using take_history_recent [OF inv, of 2]
    by (simp add: history_init_def next_id_def)
qed


text \<open>
  C10: \<open>save_message\<close> is open to SQL injection. A message that closes the
  value and opens a new row, \<open>v"), ("a", "b\<close>, makes the one \<open>INSERT\<close> store
  two rows: the sender's \<open>v\<close>, and \<open>b\<close> attributed to the login \<open>a\<close>, which
  every later history replay shows as a message of \<open>a\<close>.
\<close>

theorem save_message_injection:
  assumes "dq \<notin> set l" "dq \<notin> set v" "dq \<notin> set a" "dq \<notin> set b"
    and "CHR 0x00 \<notin> set (l @ v @ a @ b)"
  shows "save_message l (v @ dq # '')'' @ CHR '','' # CHR '' '' # CHR ''('' # dq # a @ dq # CHR '','' # CHR '' '' # dq # b) h
         = Ok (insert_rows [(l, v), (a, b)] h)"
proof -
  let ?m = "v @ dq # '')'' @ CHR '','' # CHR '' '' # CHR ''('' # dq # a @ dq # CHR '','' # CHR '' '' # dq # b"
  have q: "insert_sql l ?m = insert_prefix @ sql_row l v @ CHR '','' # CHR '' '' # sql_row a b"
    by (simp add: insert_sql_def sql_row_def)
  have "parse_rows (CHR '' '' # sql_row a b) = Parsed [(a, b)] []"
    using parse_rows_double_end [of a b] assms(3,4) by simp
  then have p: "parse_rows (sql_row l v @ CHR '','' # CHR '' '' # sql_row a b) = Parsed [(l, v), (a, b)] []"
    using parse_rows_sql_row_Cons [OF assms(1,2)] by simp
  have n: "CHR 0x00 \<notin> set (insert_sql l ?m)"
    unfolding q using assms(5) insert_prefix_no_nul by (simp add: sql_row_def)
  show ?thesis
    using p n unfolding save_message_def sql_exec_insert_def q by simp
qed

theorem save_message_injection_witness:
  "save_message ''alice''
     (''x'' @ dq # '')'' @ CHR '','' # CHR '' '' # CHR ''('' # dq # ''mallory'' @ dq # CHR '','' # CHR '' '' # dq # ''forged'')
     history_init
   = Ok (insert_rows [(''alice'', ''x''), (''mallory'', ''forged'')] history_init)
   \<and> take_history 10 (insert_rows [(''alice'', ''x''), (''mallory'', ''forged'')] history_init)
     = [(''alice'', ''x''), (''mallory'', ''forged'')]"
proof -
  have h: "dq \<notin> set ''alice''" "dq \<notin> set ''x''" "dq \<notin> set ''mallory''" "dq \<notin> set ''forged''"
    "CHR 0x00 \<notin> set (''alice'' @ ''x'' @ ''mallory'' @ ''forged'')"
    by (simp_all add: dq_def)
  have "take_history 10 (insert_rows [(''alice'', ''x''), (''mallory'', ''forged'')] history_init)
     = [(''alice'', ''x''), (''mallory'', ''forged'')]"
    by code_simp
  then show ?thesis using save_message_injection [OF h, of history_init] by simp
qed


text \<open>
  C13: saving then reading back: after a quote-free message is saved, it is
  the newest entry of every replay \<open>take_history n\<close> with \<open>n > 0\<close>.
\<close>

theorem take_history_after_save:
  assumes "history_inv h" "dq \<notin> set l" "dq \<notin> set m" "CHR 0x00 \<notin> set l" "CHR 0x00 \<notin> set m"
    and "0 < n"
  shows "\<exists>h'. save_message l m h = Ok h' \<and> last (take_history n h') = (l, m)"
  using last_take_history_insert [OF assms(1,6)] save_message_plain [OF assms(2-5)] by blast

theorem take_history_after_save_witness:
  "\<exists>h'. save_message ''alice'' ''hi'' history_init = Ok h' \<and> last (take_history 10 h') = (''alice'', ''hi'')"
proof -
  have h: "history_inv history_init" "dq \<notin> set ''alice''" "dq \<notin> set ''hi''"
    "CHR 0x00 \<notin> set ''alice''" "CHR 0x00 \<notin> set ''hi''" "0 < (10::int)"
    by (simp_all add: history_inv_init dq_def)
  show ?thesis by (rule take_history_after_save [OF h])
qed

text \<open>
  C28: a message can forge any rows of the log. The message
  \<open>v"), ("a1", "b1"), ..., ("ak", "bk")--\<close> closes the sender's row, adds one
  row per pair, and comments out the \<open>")\<close> that the f-string appends: the one
  \<open>INSERT\<close> stores \<open>(login, v)\<close> and then every pair, whatever the logins and
  texts (quotes written doubled, no NUL).
\<close>

theorem save_message_forges_rows:
  assumes "CHR 0x00 \<notin> set l" "CHR 0x00 \<notin> set v"
    and "list_all (\<lambda>(a, b). CHR 0x00 \<notin> set a \<and> CHR 0x00 \<notin> set b) rs"
  shows "save_message (dq_double l) (dq_double v @ dq # CHR '')'' # sql_rows_text rs @ ''--'') h
         = Ok (insert_rows ((l, v) # rs) h)"
proof -
  let ?r = "sql_row (dq_double l) (dq_double v) @ sql_rows_text rs @ ''--'' @ [dq, CHR '')'']"
  have q: "insert_sql (dq_double l) (dq_double v @ dq # CHR '')'' # sql_rows_text rs @ ''--'') = insert_prefix @ ?r"
    by (simp add: insert_sql_def sql_row_def)
  have "parse_rows ?r = Parsed ((l, v) # rs) []"
    by (rule parse_rows_comment_tail) (simp add: dq_def)
  moreover have "CHR 0x00 \<notin> set ?r"
    using assms by (simp add: sql_rows_text_no_nul)
  ultimately show ?thesis unfolding save_message_def q by (simp add: sql_exec_insert_prefix)
qed

theorem save_message_forges_rows_witness:
  "save_message ''alice'' (''x'' @ dq # CHR '')'' # sql_rows_text [(''bob'', ''I owe '' @ dq # ''alice'' @ [dq])] @ ''--'')
     history_init
   = Ok (insert_rows [(''alice'', ''x''), (''bob'', ''I owe '' @ dq # ''alice'' @ [dq])] history_init)"
proof -
  have "dq_double ''alice'' = ''alice''" "dq_double ''x'' = ''x''"
    "list_all (\<lambda>(a, b). CHR 0x00 \<notin> set a \<and> CHR 0x00 \<notin> set b) [(''bob'', ''I owe '' @ dq # ''alice'' @ [dq])]"
    by (simp_all add: dq_def)
  then show ?thesis
    using save_message_forges_rows [of "''alice''" "''x''" "[(''bob'', ''I owe '' @ dq # ''alice'' @ [dq])]" history_init]
    by simp
qed

end
