(* ===== verification/Protocol.thy ===== *)
theory Protocol
  imports History
begin

text \<open>
  \<open>ClientProtocol\<close> and \<open>Server\<close> (\<open>server.py\<close> lines 38--118): the per-connection
  protocol objects, the shared list \<open>Server.clients\<close> and the module-level
  \<open>history\<close>, with the asyncio transport each protocol owns. The objects live in
  a store indexed by their identity (\<open>protocols\<close>); \<open>clients\<close> holds
  references into it, as the Python list does. Each handler is a function of the
  whole server state returning a \<open>py_result\<close>.
\<close>

subsection \<open>The transport\<close>

text \<open>
  An asyncio socket transport is \<open>Open\<close>; \<open>Closing\<close> once \<open>close()\<close> was called
  or the connection failed (the reader is removed, so no more data arrives,
  later writes are dropped, and \<open>connection_lost\<close> is scheduled); \<open>Closed\<close> once
  \<open>connection_lost\<close> has run. \<open>written\<close> is the data accepted by \<open>write\<close>, one
  entry per call, in order. \<open>write\<close> never raises here: it returns at once on
  empty data and drops the data of a lost connection
  (\<open>_SelectorSocketTransport.write\<close>). Here a transport sends every write at
  once; \<open>Transport\<close> models its buffer. \<open>calls\<close> lists the transport methods the
  program called, in order (\<open>write\<close>, \<open>close()\<close>, and \<open>_force_close\<close> by the
  loop on an exception): the interface through which \<open>Transport\<close> replays
  them on a buffered transport.
\<close>

datatype tstate = Open | Closing | Closed

datatype tcall = TWrite pystr | TClose | TForce_close

record transport =
  tstate :: tstate
  written :: "pystr list"
  calls :: "tcall list"

definition transport_write :: "pystr \<Rightarrow> transport \<Rightarrow> transport" where
  "transport_write data t =
     (if data = [] \<or> tstate t \<noteq> Open then t\<lparr>calls := calls t @ [TWrite data]\<rparr>
      else t\<lparr>written := written t @ [data], calls := calls t @ [TWrite data]\<rparr>)"

definition transport_close :: "transport \<Rightarrow> transport" where
  "transport_close t =
     (if tstate t = Open then t\<lparr>tstate := Closing, calls := calls t @ [TClose]\<rparr>
      else t\<lparr>calls := calls t @ [TClose]\<rparr>)"

text \<open>\<open>_force_close\<close>: the same state change as \<open>close()\<close> on a transport that sends every write at once.\<close>

definition transport_force_close :: "transport \<Rightarrow> transport" where
  "transport_force_close t =
     (if tstate t = Open then t\<lparr>tstate := Closing, calls := calls t @ [TForce_close]\<rparr>
      else t\<lparr>calls := calls t @ [TForce_close]\<rparr>)"

subsection \<open>State\<close>

record client =
  login :: "pystr option"
  transport :: transport

record server =
  clients :: "conn list"
  protocols :: "conn \<rightharpoonup> client"
  history :: history_storage
  errors :: "(conn \<times> py_error) list"

text \<open>The module-level objects at start-up: \<open>history = HistoryStorage()\<close>, \<open>Server()\<close>.\<close>

definition server_init :: server where
  "server_init = \<lparr>clients = [], protocols = Map.empty, history = history_init, errors = []\<rparr>"

definition login_of :: "server \<Rightarrow> conn \<Rightarrow> pystr option" where
  "login_of s c = (case protocols s c of Some p \<Rightarrow> login p | None \<Rightarrow> None)"

definition tstate_of :: "server \<Rightarrow> conn \<Rightarrow> tstate option" where
  "tstate_of s c = map_option (tstate \<circ> transport) (protocols s c)"

definition written_to :: "server \<Rightarrow> conn \<Rightarrow> pystr list" where
  "written_to s c = (case protocols s c of Some p \<Rightarrow> written (transport p) | None \<Rightarrow> [])"

text \<open>The calls the program has made on a connection's transport, in order.\<close>

definition calls_of :: "server \<Rightarrow> conn \<Rightarrow> tcall list" where
  "calls_of s c = (case protocols s c of Some p \<Rightarrow> calls (transport p) | None \<Rightarrow> [])"

definition update_protocol :: "conn \<Rightarrow> (client \<Rightarrow> client) \<Rightarrow> server \<Rightarrow> server" where
  "update_protocol c f s = s\<lparr>protocols := (protocols s)(c := map_option f (protocols s c))\<rparr>"

text \<open>\<open>client.transport.write(data)\<close> and \<open>self.transport.close()\<close>.\<close>

definition write_to :: "conn \<Rightarrow> pystr \<Rightarrow> server \<Rightarrow> server" where
  "write_to c data = update_protocol c (\<lambda>p. p\<lparr>transport := transport_write data (transport p)\<rparr>)"

definition close_transport :: "conn \<Rightarrow> server \<Rightarrow> server" where
  "close_transport c = update_protocol c (\<lambda>p. p\<lparr>transport := transport_close (transport p)\<rparr>)"

definition force_close_transport :: "conn \<Rightarrow> server \<Rightarrow> server" where
  "force_close_transport c = update_protocol c (\<lambda>p. p\<lparr>transport := transport_force_close (transport p)\<rparr>)"

subsection \<open>Messages\<close>

definition hello_line :: "pystr \<Rightarrow> pystr" where
  "hello_line l = ''Hello, '' @ l"

text \<open>
  The f-string of line 66, Russian for: Login "{login}" is taken, try another
  one; in UTF-8, each Cyrillic letter written as its two bytes.
\<close>

definition name_taken_line :: "pystr \<Rightarrow> pystr" where
  "name_taken_line l =
     [CHR 0xD0, CHR 0x9B, CHR 0xD0, CHR 0xBE, CHR 0xD0, CHR 0xB3, CHR 0xD0, CHR 0xB8, CHR 0xD0, CHR 0xBD]
     @ CHR '' '' # dq # l @ dq # CHR '' '' #
     [CHR 0xD0, CHR 0xB7, CHR 0xD0, CHR 0xB0, CHR 0xD0, CHR 0xBD, CHR 0xD1, CHR 0x8F, CHR 0xD1, CHR 0x82]
     @ CHR '','' # CHR '' '' #
     [CHR 0xD0, CHR 0xBF, CHR 0xD0, CHR 0xBE, CHR 0xD0, CHR 0xBF, CHR 0xD1, CHR 0x80, CHR 0xD0, CHR 0xBE,
      CHR 0xD0, CHR 0xB1, CHR 0xD1, CHR 0x83, CHR 0xD0, CHR 0xB9, CHR 0xD1, CHR 0x82, CHR 0xD0, CHR 0xB5]
     @ CHR '' '' #
     [CHR 0xD0, CHR 0xB4, CHR 0xD1, CHR 0x80, CHR 0xD1, CHR 0x83, CHR 0xD0, CHR 0xB3, CHR 0xD0, CHR 0xBE,
      CHR 0xD0, CHR 0xB9]"

definition chat_line :: "pystr \<Rightarrow> pystr \<Rightarrow> pystr" where
  "chat_line l message = ''<'' @ py_strip l @ ''>: '' @ message"

definition history_line :: "pystr \<times> pystr \<Rightarrow> pystr" where
  "history_line e = [CHR 0x0A, CHR 0x0D] @ chat_line (fst e) (snd e)"

subsection \<open>The handlers\<close>

text \<open>
  \<open>Server.create_client_protocol\<close> and \<open>ClientProtocol.__init__\<close> make a
  protocol with no login; \<open>connection_made\<close> stores the new transport and appends
  the protocol to \<open>Server.clients\<close>.
\<close>

definition create_client_protocol :: "transport \<Rightarrow> client" where
  "create_client_protocol t = \<lparr>login = None, transport = t\<rparr>"

definition connection_made :: "conn \<Rightarrow> server \<Rightarrow> server" where
  "connection_made c s =
     s\<lparr>protocols := (protocols s)(c \<mapsto> create_client_protocol \<lparr>tstate = Open, written = [], calls = []\<rparr>),
       clients := clients s @ [c]\<rparr>"

text \<open>\<open>_existing_login\<close>: some protocol of \<open>Server.clients\<close> has this login.\<close>

definition existing_login :: "pystr \<Rightarrow> server \<Rightarrow> bool" where
  "existing_login l s = list_ex (\<lambda>x. login_of s x = Some l) (clients s)"

text \<open>\<open>send_history\<close>: the history lines, written to this transport only.\<close>

definition send_history :: "conn \<Rightarrow> int \<Rightarrow> server \<Rightarrow> server" where
  "send_history c needed s = fold (\<lambda>e. write_to c (history_line e)) (take_history needed (history s)) s"

text \<open>
  The loop of \<open>send_message\<close>: every protocol of the list whose login differs
  from the sender's gets the line, whatever its own state.
\<close>

fun broadcast :: "conn list \<Rightarrow> pystr option \<Rightarrow> pystr \<Rightarrow> server \<Rightarrow> server" where
  "broadcast [] sender data s = s"
| "broadcast (x # xs) sender data s =
     broadcast xs sender data (if login_of s x \<noteq> sender then write_to x data s else s)"

text \<open>
  \<open>send_message\<close>: save first (the statement may raise), then broadcast. On a
  protocol without login \<open>self.login.strip()\<close> raises \<open>AttributeError\<close>;
  \<open>data_received\<close> never calls it so.
\<close>

definition send_message :: "conn \<Rightarrow> pystr \<Rightarrow> server \<Rightarrow> server py_result" where
  "send_message c message s =
     (case login_of s c of
        None \<Rightarrow> Exc AttributeError s
      | Some l \<Rightarrow>
          py_then (map_py_result (\<lambda>h. s\<lparr>history := h\<rparr>) (save_message l message (history s)))
            (\<lambda>s'. Ok (broadcast (clients s') (Some l) (chat_line l message) s')))"

definition parse_login :: "pystr \<Rightarrow> pystr" where
  "parse_login decoded = py_replace (py_replace decoded ''login:'' '''') [CHR 0x0D, CHR 0x0A] ''''"

definition data_received :: "conn \<Rightarrow> pystr \<Rightarrow> server \<Rightarrow> server py_result" where
  "data_received c data s =
     (case py_decode data of
        Inl e \<Rightarrow> Exc e s
      | Inr decoded \<Rightarrow>
          (if login_of s c = None then
             (if py_startswith decoded ''login:'' then
                (let l = parse_login decoded in
                 if \<not> existing_login l s then
                   Ok (send_history c 10
                        (write_to c (hello_line l) (update_protocol c (\<lambda>p. p\<lparr>login := Some l\<rparr>) s)))
                 else
                   (let s1 = write_to c (name_taken_line l) s in
                    case py_list_remove c (clients s1) of
                      Inl e \<Rightarrow> Exc e s1
                    | Inr cl \<Rightarrow> Ok (close_transport c (s1\<lparr>clients := cl\<rparr>))))
              else Ok s)
           else send_message c decoded s))"

text \<open>\<open>connection_lost\<close>: \<open>self.server.clients.remove(self)\<close>.\<close>

definition connection_lost :: "conn \<Rightarrow> server \<Rightarrow> server py_result" where
  "connection_lost c s =
     (case py_list_remove c (clients s) of Inl e \<Rightarrow> Exc e s | Inr cl \<Rightarrow> Ok (s\<lparr>clients := cl\<rparr>))"

subsection \<open>Frame lemmas\<close>

text \<open>
  Writing, closing and saving leave the registry alone: the list, the set of
  protocol objects and every login. \<open>same_registry\<close> names that frame.
\<close>

definition same_registry :: "server \<Rightarrow> server \<Rightarrow> bool" where
  "same_registry s t \<longleftrightarrow>
     clients t = clients s \<and> dom (protocols t) = dom (protocols s) \<and> login_of t = login_of s"

lemma same_registry_refl [intro, simp]: "same_registry s s"
  by (simp add: same_registry_def)

lemma same_registry_trans [trans]: "same_registry s t \<Longrightarrow> same_registry t u \<Longrightarrow> same_registry s u"
  by (simp add: same_registry_def)

lemma clients_update_protocol [simp]: "clients (update_protocol c f s) = clients s"
  by (simp add: update_protocol_def)

lemma history_update_protocol [simp]: "history (update_protocol c f s) = history s"
  by (simp add: update_protocol_def)

lemma errors_update_protocol [simp]: "errors (update_protocol c f s) = errors s"
  by (simp add: update_protocol_def)

lemma dom_update_protocol [simp]: "dom (protocols (update_protocol c f s)) = dom (protocols s)"
  by (auto simp: update_protocol_def)

lemma login_of_update_protocol:
  "login_of (update_protocol c f s) x =
     (if x = c then (case protocols s c of Some p \<Rightarrow> login (f p) | None \<Rightarrow> None) else login_of s x)"
  by (simp add: update_protocol_def login_of_def split: option.split)

lemma same_registry_update_protocol:
  "(\<And>p. login (f p) = login p) \<Longrightarrow> same_registry s (update_protocol c f s)"
  unfolding same_registry_def fun_eq_iff login_of_update_protocol
  by (simp add: login_of_def split: option.split)

lemma same_registry_write_to [chat_simps]: "same_registry s (write_to c d s)"
  by (simp add: write_to_def same_registry_update_protocol)

lemma same_registry_close_transport [chat_simps]: "same_registry s (close_transport c s)"
  by (simp add: close_transport_def same_registry_update_protocol)

lemma same_registry_history [chat_simps]: "same_registry s (s\<lparr>history := h\<rparr>)"
  by (simp add: same_registry_def login_of_def fun_eq_iff)

lemma same_registry_send_history [chat_simps]: "same_registry s (send_history c n s)"
proof -
  have "same_registry s (fold (\<lambda>e. write_to c (history_line e)) es s)" for es
    by (induction es arbitrary: s) (auto intro: same_registry_trans same_registry_write_to)
  then show ?thesis by (simp add: send_history_def)
qed

lemma same_registry_broadcast [chat_simps]: "same_registry s (broadcast xs sender d s)"
  by (induction xs arbitrary: s) (auto intro: same_registry_trans same_registry_write_to)

lemma same_registry_send_message:
  "send_message c m s = Ok t \<or> send_message c m s = Exc e t \<Longrightarrow> same_registry s t"
  by (auto simp: send_message_def save_message_def split: option.splits sql_outcome.splits
           intro: same_registry_trans [OF same_registry_history same_registry_broadcast])

lemma write_to_frame [simp]:
  "clients (write_to c d s) = clients s" "history (write_to c d s) = history s"
  "errors (write_to c d s) = errors s" "login_of (write_to c d s) = login_of s"
  using same_registry_write_to [of s c d] by (simp_all add: write_to_def same_registry_def)

lemma close_transport_frame [simp]:
  "clients (close_transport c s) = clients s" "history (close_transport c s) = history s"
  "errors (close_transport c s) = errors s" "login_of (close_transport c s) = login_of s"
  using same_registry_close_transport [of s c] by (simp_all add: close_transport_def same_registry_def)

subsection \<open>What reaches each transport\<close>

text \<open>
  \<open>written_to s x\<close> is what the transport of \<open>x\<close> has accepted. A write
  reaches only an open transport; the broadcast writes to the protocols of the
  list whose login differs from the sender's; the history replay writes to
  the new client's transport only.
\<close>
lemma tstate_of_update_protocol:
  "tstate_of (update_protocol c f s) x =
     (if x = c then map_option (tstate \<circ> transport \<circ> f) (protocols s c) else tstate_of s x)"
  by (simp add: update_protocol_def tstate_of_def option.map_comp)

lemma written_to_update_protocol:
  "written_to (update_protocol c f s) x =
     (if x = c then (case protocols s c of Some p \<Rightarrow> written (transport (f p)) | None \<Rightarrow> []) else written_to s x)"
  by (simp add: update_protocol_def written_to_def split: option.split)

lemma tstate_of_write_to_at: "tstate_of (write_to c d s) x = tstate_of s x"
  unfolding write_to_def tstate_of_update_protocol
  by (cases "protocols s c") (auto simp: transport_write_def tstate_of_def)

lemma tstate_of_write_to [simp]: "tstate_of (write_to c d s) = tstate_of s"
  by (simp add: fun_eq_iff tstate_of_write_to_at)

lemma written_to_write_to [chat_simps]:
  "written_to (write_to c d s) x =
     (if x = c \<and> tstate_of s c = Some Open \<and> d \<noteq> [] then written_to s x @ [d] else written_to s x)"
  unfolding write_to_def written_to_update_protocol
  by (auto simp: transport_write_def tstate_of_def written_to_def split: option.split)

lemma written_to_close_transport [simp]: "written_to (close_transport c s) = written_to s"
  unfolding fun_eq_iff close_transport_def written_to_update_protocol
  by (simp add: transport_close_def written_to_def split: option.split)

lemma tstate_of_close_transport [chat_simps]:
  "tstate_of (close_transport c s) x =
     (if x = c \<and> tstate_of s c = Some Open then Some Closing else tstate_of s x)"
  unfolding close_transport_def tstate_of_update_protocol
  by (cases "protocols s c") (auto simp: transport_close_def tstate_of_def)

lemma same_registry_force_close_transport [chat_simps]: "same_registry s (force_close_transport c s)"
  by (simp add: force_close_transport_def same_registry_update_protocol)

lemma force_close_transport_frame [simp]:
  "clients (force_close_transport c s) = clients s" "history (force_close_transport c s) = history s"
  "errors (force_close_transport c s) = errors s" "login_of (force_close_transport c s) = login_of s"
  using same_registry_force_close_transport [of s c]
  by (simp_all add: force_close_transport_def same_registry_def)

lemma written_to_force_close_transport [simp]: "written_to (force_close_transport c s) = written_to s"
  unfolding fun_eq_iff force_close_transport_def written_to_update_protocol
  by (simp add: transport_force_close_def written_to_def split: option.split)

lemma tstate_of_force_close_transport [chat_simps]:
  "tstate_of (force_close_transport c s) x =
     (if x = c \<and> tstate_of s c = Some Open then Some Closing else tstate_of s x)"
  unfolding force_close_transport_def tstate_of_update_protocol
  by (cases "protocols s c") (auto simp: transport_force_close_def tstate_of_def)

lemma login_of_broadcast [simp]: "login_of (broadcast xs sender d s) = login_of s"
  using same_registry_broadcast [of s xs sender d] by (simp add: same_registry_def)

lemma tstate_of_broadcast [simp]: "tstate_of (broadcast xs sender d s) = tstate_of s"
  by (induction xs arbitrary: s) auto

lemma written_to_broadcast:
  "distinct xs \<Longrightarrow>
   written_to (broadcast xs sender d s) x =
     (if x \<in> set xs \<and> login_of s x \<noteq> sender \<and> tstate_of s x = Some Open \<and> d \<noteq> []
      then written_to s x @ [d] else written_to s x)"
proof (induction xs arbitrary: s)
  case Nil
  then show ?case by simp
next
  case (Cons y ys)
  let ?s' = "if login_of s y \<noteq> sender then write_to y d s else s"
  have "login_of ?s' = login_of s" and "tstate_of ?s' = tstate_of s" by simp_all
  with Cons show ?case by (auto simp: written_to_write_to)
qed

lemma history_line_nonempty [simp]: "history_line e \<noteq> []"
  by (simp add: history_line_def)

lemma fold_write_to:
  "(\<forall>d\<in>set ds. d \<noteq> []) \<Longrightarrow>
   written_to (fold (write_to c) ds s) x =
     (if x = c \<and> tstate_of s c = Some Open then written_to s x @ ds else written_to s x)"
  by (induction ds arbitrary: s) (auto simp: written_to_write_to)

lemma written_to_send_history:
  "written_to (send_history c n s) x =
     (if x = c \<and> tstate_of s c = Some Open
      then written_to s x @ map history_line (take_history n (history s)) else written_to s x)"
proof -
  have "fold (\<lambda>e. write_to c (history_line e)) es s = fold (write_to c) (map history_line es) s" for es
    by (simp add: fold_map comp_def)
  then show ?thesis by (simp add: send_history_def fold_write_to)
qed

subsection \<open>Calls on the transports\<close>

text \<open>
  A write or close is a call on one transport; the broadcast calls \<open>write\<close>
  only on the protocols of the list it runs over.
\<close>

lemma calls_of_update_protocol: "x \<noteq> c \<Longrightarrow> calls_of (update_protocol x f s) c = calls_of s c"
  by (simp add: update_protocol_def calls_of_def)

lemma calls_of_fields [simp]:
  "calls_of (s\<lparr>clients := cl\<rparr>) = calls_of s" "calls_of (s\<lparr>history := h\<rparr>) = calls_of s"
  "calls_of (s\<lparr>errors := es\<rparr>) = calls_of s"
  by (simp_all add: fun_eq_iff calls_of_def)

lemma calls_of_other [simp]:
  "x \<noteq> c \<Longrightarrow> calls_of (write_to x d s) c = calls_of s c"
  "x \<noteq> c \<Longrightarrow> calls_of (close_transport x s) c = calls_of s c"
  "x \<noteq> c \<Longrightarrow> calls_of (force_close_transport x s) c = calls_of s c"
  by (simp_all add: write_to_def close_transport_def force_close_transport_def calls_of_update_protocol)

lemma calls_of_broadcast: "c \<notin> set xs \<Longrightarrow> calls_of (broadcast xs sender d s) c = calls_of s c"
  by (induction xs arbitrary: s) auto

lemma calls_of_self:
  "protocols s c \<noteq> None \<Longrightarrow> calls_of (write_to c d s) c = calls_of s c @ [TWrite d]"
  "protocols s c \<noteq> None \<Longrightarrow> calls_of (force_close_transport c s) c = calls_of s c @ [TForce_close]"
  by (auto simp: write_to_def force_close_transport_def update_protocol_def calls_of_def
      transport_write_def transport_force_close_def)

lemma calls_of_broadcast_listed:
  "distinct xs \<Longrightarrow> c \<in> set xs \<Longrightarrow> login_of s c \<noteq> sender \<Longrightarrow> protocols s c \<noteq> None \<Longrightarrow>
   calls_of (broadcast xs sender d s) c = calls_of s c @ [TWrite d]"
proof (induction xs arbitrary: s)
  case Nil
  then show ?case by simp
next
  case (Cons y ys)
  let ?s' = "if login_of s y \<noteq> sender then write_to y d s else s"
  have "login_of ?s' = login_of s" by simp
  moreover have "protocols ?s' c \<noteq> None"
    using Cons.prems(4) by (auto simp: write_to_def update_protocol_def)
  ultimately show ?case using Cons
    by (cases "y = c") (auto simp: calls_of_self calls_of_broadcast)
qed

lemma calls_of_send_history: "x \<noteq> c \<Longrightarrow> calls_of (send_history x n s) c = calls_of s c"
proof -
  assume "x \<noteq> c"
  then have "calls_of (fold (\<lambda>e. write_to x (history_line e)) es s) c = calls_of s c" for es
    by (induction es arbitrary: s) simp_all
  then show ?thesis by (simp add: send_history_def)
qed

lemma calls_of_connection_made: "x \<noteq> c \<Longrightarrow> calls_of (connection_made x s) c = calls_of s c"
  by (simp add: connection_made_def calls_of_def)

subsection \<open>The branches of \<open>data_received\<close>\<close>

text \<open>
  One equation per branch of the handler, so that proofs about it never
  unfold the whole definition.
\<close>

lemma data_received_undecodable [chat_simps]:
  "py_decode d = Inl e \<Longrightarrow> data_received c d s = Exc e s"
  unfolding data_received_def by simp

lemma data_received_chat [chat_simps]:
  "py_decode d = Inr m \<Longrightarrow> login_of s c = Some l \<Longrightarrow> data_received c d s = send_message c m s"
  unfolding data_received_def by simp

lemma data_received_ignored [chat_simps]:
  "py_decode d = Inr m \<Longrightarrow> login_of s c = None \<Longrightarrow> \<not> py_startswith m ''login:'' \<Longrightarrow>
   data_received c d s = Ok s"
  unfolding data_received_def by simp

lemma data_received_login [chat_simps]:
  "py_decode d = Inr m \<Longrightarrow> login_of s c = None \<Longrightarrow> py_startswith m ''login:'' \<Longrightarrow>
   \<not> existing_login (parse_login m) s \<Longrightarrow>
   data_received c d s =
     Ok (send_history c 10 (write_to c (hello_line (parse_login m))
           (update_protocol c (\<lambda>p. p\<lparr>login := Some (parse_login m)\<rparr>) s)))"
  unfolding data_received_def by (simp add: Let_def)

lemma data_received_taken [chat_simps]:
  "py_decode d = Inr m \<Longrightarrow> login_of s c = None \<Longrightarrow> py_startswith m ''login:'' \<Longrightarrow>
   existing_login (parse_login m) s \<Longrightarrow>
   data_received c d s =
     (let s1 = write_to c (name_taken_line (parse_login m)) s in
      if c \<in> set (clients s) then Ok (close_transport c (s1\<lparr>clients := remove1 c (clients s)\<rparr>))
      else Exc ValueError s1)"
  unfolding data_received_def by (simp add: Let_def py_list_remove_eq)
text \<open>
  The branches as one elimination rule, for proofs about every run of the
  handler, returning or raising.
\<close>

lemma data_received_cases:
  assumes "data_received c d s = Ok t \<or> data_received c d s = Exc e t"
  obtains (undecodable) "t = s"
  | (chat) l m where "login_of s c = Some l" "send_message c m s = Ok t \<or> send_message c m s = Exc e t"
  | (login) l where "login_of s c = None" "\<not> existing_login l s"
      "t = send_history c 10 (write_to c (hello_line l) (update_protocol c (\<lambda>p. p\<lparr>login := Some l\<rparr>) s))"
  | (taken) l where "login_of s c = None" "existing_login l s" "c \<in> set (clients s)"
      "t = close_transport c ((write_to c (name_taken_line l) s)\<lparr>clients := remove1 c (clients s)\<rparr>)"
  | (taken_raises) l where "login_of s c = None" "existing_login l s" "c \<notin> set (clients s)"
      "t = write_to c (name_taken_line l) s"
  | (ignored) "t = s"
proof (cases "py_decode d")
  case (Inl e')
  with assms show ?thesis using undecodable by (simp add: data_received_undecodable)
next
  case (Inr m)
  show ?thesis
  proof (cases "login_of s c")
    case (Some l)
    with Inr assms show ?thesis using chat by (simp add: data_received_chat)
  next
    case None
    consider (l) "py_startswith m ''login:''" "\<not> existing_login (parse_login m) s"
      | (t) "py_startswith m ''login:''" "existing_login (parse_login m) s"
      | (o) "\<not> py_startswith m ''login:''"
      by blast
    then show ?thesis
    proof cases
      case l
      with assms show ?thesis using login [OF None l(2)] by (simp add: data_received_login [OF Inr None l])
    next
      case t
      then show ?thesis using assms taken [OF None t(2)] taken_raises [OF None t(2)]
        by (cases "c \<in> set (clients s)") (simp_all add: data_received_taken [OF Inr None t] Let_def)
    next
      case o
      with assms show ?thesis using ignored by (simp add: data_received_ignored [OF Inr None])
    qed
  qed
qed


subsection \<open>Effects of the handlers\<close>

lemma set_login_effects:
  assumes "tstate_of s c = Some st"
  shows "login_of (update_protocol c (\<lambda>p. p\<lparr>login := Some l\<rparr>) s) x = (if x = c then Some l else login_of s x)"
    and "tstate_of (update_protocol c (\<lambda>p. p\<lparr>login := Some l\<rparr>) s) = tstate_of s"
    and "written_to (update_protocol c (\<lambda>p. p\<lparr>login := Some l\<rparr>) s) = written_to s"
  using assms
  unfolding fun_eq_iff login_of_update_protocol tstate_of_update_protocol written_to_update_protocol
  by (auto simp: tstate_of_def written_to_def login_of_def split: option.splits)

lemma clients_update_effects [simp]:
  "login_of (s\<lparr>clients := cl\<rparr>) = login_of s" "tstate_of (s\<lparr>clients := cl\<rparr>) = tstate_of s"
  "written_to (s\<lparr>clients := cl\<rparr>) = written_to s"
  by (simp_all add: fun_eq_iff login_of_def tstate_of_def written_to_def)

lemma history_update_effects [simp]:
  "login_of (s\<lparr>history := h\<rparr>) = login_of s" "tstate_of (s\<lparr>history := h\<rparr>) = tstate_of s"
  "written_to (s\<lparr>history := h\<rparr>) = written_to s" "clients (s\<lparr>history := h\<rparr>) = clients s"
  by (simp_all add: fun_eq_iff login_of_def tstate_of_def written_to_def)

lemma hello_line_nonempty [simp]: "hello_line l \<noteq> []"
  by (simp add: hello_line_def)

lemma chat_line_nonempty [simp]: "chat_line l m \<noteq> []"
  by (simp add: chat_line_def)

lemma name_taken_line_nonempty [simp]: "name_taken_line l \<noteq> []"
  by (simp add: name_taken_line_def)

lemma history_broadcast [simp]: "history (broadcast xs sender d s) = history s"
  by (induction xs arbitrary: s) simp_all

lemma send_history_frame [simp]:
  "clients (send_history c n s) = clients s" "history (send_history c n s) = history s"
  "errors (send_history c n s) = errors s" "login_of (send_history c n s) = login_of s"
  "tstate_of (send_history c n s) = tstate_of s"
proof -
  have "clients (fold (\<lambda>e. write_to c (history_line e)) es s) = clients s \<and>
        history (fold (\<lambda>e. write_to c (history_line e)) es s) = history s \<and>
        errors (fold (\<lambda>e. write_to c (history_line e)) es s) = errors s \<and>
        login_of (fold (\<lambda>e. write_to c (history_line e)) es s) = login_of s \<and>
        tstate_of (fold (\<lambda>e. write_to c (history_line e)) es s) = tstate_of s" for es
    by (induction es arbitrary: s) simp_all
  then show "clients (send_history c n s) = clients s" "history (send_history c n s) = history s"
    "errors (send_history c n s) = errors s" "login_of (send_history c n s) = login_of s"
    "tstate_of (send_history c n s) = tstate_of s"
    by (simp_all add: send_history_def)
qed

lemma send_message_OkD:
  "login_of s c = Some l \<Longrightarrow> send_message c m s = Ok t \<Longrightarrow>
   \<exists>h. save_message l m (history s) = Ok h \<and> t = broadcast (clients s) (Some l) (chat_line l m) (s\<lparr>history := h\<rparr>)"
  by (cases "save_message l m (history s)") (auto simp: send_message_def)

lemma written_to_broadcast_sender:
  "login_of s x = sender \<Longrightarrow> written_to (broadcast xs sender d s) x = written_to s x"
  by (induction xs arbitrary: s) (auto simp: written_to_write_to)

lemma written_to_login:
  assumes "tstate_of s c = Some Open"
  shows "written_to (send_history c 10 (write_to c (hello_line l) (update_protocol c (\<lambda>p. p\<lparr>login := Some l\<rparr>) s))) x =
     (if x = c then written_to s c @ hello_line l # map history_line (take_history 10 (history s)) else written_to s x)"
  using assms set_login_effects [OF assms, of l]
  by (simp add: written_to_send_history written_to_write_to)

subsection \<open>The handlers' contracts\<close>

text \<open>
  The example state of the witnesses: protocol 0 has logged in as alice,
  protocol 1 is connected and has not logged in.
\<close>

abbreviation alice_and_guest :: server where
  "alice_and_guest \<equiv> update_protocol 0 (\<lambda>p. p\<lparr>login := Some ''alice''\<rparr>) (connection_made 1 (connection_made 0 server_init))"

text \<open>
  C2: a login with a name that a protocol of \<open>Server.clients\<close> already holds is
  refused: the newcomer gets the "name taken" line, leaves the list and its
  transport closes; no login changes (the holder keeps its name and its place
  in the list) and no other transport is written to or closed.
\<close>

theorem login_refused:
  assumes "py_decode d = Inr m" and "login_of s c = None" and "py_startswith m ''login:''"
    and "existing_login (parse_login m) s" and "c \<in> set (clients s)" and "tstate_of s c = Some Open"
  shows "\<exists>t. data_received c d s = Ok t
     \<and> written_to t c = written_to s c @ [name_taken_line (parse_login m)]
     \<and> tstate_of t c = Some Closing \<and> clients t = remove1 c (clients s) \<and> login_of t = login_of s
     \<and> (\<forall>x. x \<noteq> c \<longrightarrow> written_to t x = written_to s x \<and> tstate_of t x = tstate_of s x)"
proof -
  let ?s1 = "write_to c (name_taken_line (parse_login m)) s"
  let ?t = "close_transport c (?s1\<lparr>clients := remove1 c (clients s)\<rparr>)"
  have "data_received c d s = Ok ?t"
    using data_received_taken [OF assms(1-4)] assms(5) by (simp add: Let_def)
  moreover have "tstate_of ?t x = (if x = c then Some Closing else tstate_of s x)" for x
    using assms(6) by (simp add: tstate_of_close_transport)
  moreover have "written_to ?t x =
      (if x = c then written_to s c @ [name_taken_line (parse_login m)] else written_to s x)" for x
    using assms(6) by (simp add: written_to_write_to)
  moreover have "login_of ?t = login_of s" by simp
  ultimately show ?thesis by auto
qed

theorem login_refused_witness:
  "\<exists>t. data_received 1 ''login:alice'' alice_and_guest = Ok t
     \<and> clients t = [0] \<and> written_to t 1 = [name_taken_line ''alice''] \<and> tstate_of t 1 = Some Closing
     \<and> login_of t 0 = Some ''alice''"
proof -
  have p: "parse_login ''login:alice'' = ''alice''" by code_simp
  have h: "py_decode ''login:alice'' = Inr ''login:alice''" "login_of alice_and_guest 1 = None"
    "py_startswith ''login:alice'' ''login:''" "existing_login (parse_login ''login:alice'') alice_and_guest"
    "1 \<in> set (clients alice_and_guest)" "tstate_of alice_and_guest 1 = Some Open"
    by code_simp+
  have c: "clients alice_and_guest = [0, 1]" "written_to alice_and_guest 1 = []" "login_of alice_and_guest 0 = Some ''alice''" by code_simp+
  show ?thesis using login_refused [OF h] p c by auto
qed

text \<open>
  C3: a login with a free name succeeds: the protocol takes the name, its
  transport gets the greeting and then the replay of the last 10 saved
  messages (oldest first), and nothing else is written anywhere; the list and
  the log are unchanged.
\<close>

theorem login_accepted:
  assumes "py_decode d = Inr m" and "login_of s c = None" and "py_startswith m ''login:''"
    and "\<not> existing_login (parse_login m) s" and "tstate_of s c = Some Open"
  shows "\<exists>t. data_received c d s = Ok t \<and> login_of t c = Some (parse_login m)
     \<and> written_to t c = written_to s c @ hello_line (parse_login m) # map history_line (take_history 10 (history s))
     \<and> (\<forall>x. x \<noteq> c \<longrightarrow> written_to t x = written_to s x \<and> login_of t x = login_of s x)
     \<and> clients t = clients s \<and> history t = history s"
proof -
  let ?l = "parse_login m"
  let ?s1 = "update_protocol c (\<lambda>p. p\<lparr>login := Some ?l\<rparr>) s"
  let ?t = "send_history c 10 (write_to c (hello_line ?l) ?s1)"
  note eff = set_login_effects [OF assms(5), of ?l]
  have "data_received c d s = Ok ?t" using assms(1-4) by (rule data_received_login)
  moreover have "login_of ?t x = (if x = c then Some ?l else login_of s x)" for x
    using eff(1) by simp
  moreover have "written_to ?t x = (if x = c then written_to s c @ hello_line ?l # map history_line (take_history 10 (history s)) else written_to s x)" for x
    using assms(5) by (rule written_to_login)
  moreover have "clients ?t = clients s" and "history ?t = history s"
    by simp_all
  ultimately show ?thesis by auto
qed

theorem login_accepted_witness:
  "\<exists>t. data_received 0 ''login:alice'' (connection_made 0 server_init) = Ok t
     \<and> login_of t 0 = Some ''alice'' \<and> written_to t 0 = [''Hello, alice'']"
proof -
  have p: "parse_login ''login:alice'' = ''alice''" by code_simp
  have "py_decode ''login:alice'' = Inr ''login:alice''" by code_simp
  moreover have "login_of (connection_made 0 server_init) 0 = None"
    by (simp add: connection_made_def login_of_def create_client_protocol_def)
  moreover have "py_startswith ''login:alice'' ''login:''" by code_simp
  moreover have "\<not> existing_login (parse_login ''login:alice'') (connection_made 0 server_init)"
    by code_simp
  moreover have "tstate_of (connection_made 0 server_init) 0 = Some Open"
    by (simp add: connection_made_def tstate_of_def create_client_protocol_def)
  ultimately obtain t where "data_received 0 ''login:alice'' (connection_made 0 server_init) = Ok t"
    and "login_of t 0 = Some ''alice''"
    and "written_to t 0 = written_to (connection_made 0 server_init) 0 @ hello_line ''alice''
           # map history_line (take_history 10 (history (connection_made 0 server_init)))"
    using login_accepted [of "''login:alice''" "''login:alice''" "connection_made 0 server_init" 0] p
    by auto
  moreover have "written_to (connection_made 0 server_init) 0 = []"
    by (simp add: connection_made_def written_to_def create_client_protocol_def)
  moreover have "take_history 10 (history (connection_made 0 server_init)) = []"
    by code_simp
  ultimately show ?thesis by (auto simp: hello_line_def)
qed

text \<open>
  C4: a chat message is never written back to its sender's transport.
\<close>

theorem send_message_no_echo:
  assumes "send_message c m s = Ok t"
  shows "written_to t c = written_to s c"
proof (cases "login_of s c")
  case None
  with assms show ?thesis by (simp add: send_message_def)
next
  case (Some l)
  with assms obtain h where "t = broadcast (clients s) (Some l) (chat_line l m) (s\<lparr>history := h\<rparr>)"
    by (blast dest: send_message_OkD)
  then show ?thesis using Some by (simp add: written_to_broadcast_sender)
qed

theorem send_message_no_echo_witness:
  "\<exists>t. send_message 0 ''hi'' alice_and_guest = Ok t \<and> written_to t 0 = []"
proof -
  have "case send_message 0 ''hi'' alice_and_guest of Ok t \<Rightarrow> True | _ \<Rightarrow> False" by code_simp
  then obtain t where r: "send_message 0 ''hi'' alice_and_guest = Ok t" by (auto split: py_result.splits)
  have "written_to alice_and_guest 0 = []" by code_simp
  then show ?thesis using send_message_no_echo [OF r] r by auto
qed

text \<open>
  C5: a chat message that is saved reaches, once, exactly the protocols of
  \<open>Server.clients\<close> whose login differs from the sender's and whose transport
  is open; this includes protocols that have not logged in. A recipient whose
  transport is closing is skipped without disturbing the others.
\<close>

theorem send_message_delivery:
  assumes "distinct (clients s)" and "login_of s c = Some l" and "send_message c m s = Ok t"
  shows "written_to t x =
     (if x \<in> set (clients s) \<and> login_of s x \<noteq> Some l \<and> tstate_of s x = Some Open
      then written_to s x @ [chat_line l m] else written_to s x)"
proof -
  obtain h where "t = broadcast (clients s) (Some l) (chat_line l m) (s\<lparr>history := h\<rparr>)"
    using assms(2,3) by (blast dest: send_message_OkD)
  then show ?thesis using assms(1) by (simp add: written_to_broadcast)
qed

theorem send_message_delivery_witness:
  "\<exists>t. send_message 0 ''hi'' alice_and_guest = Ok t \<and> login_of alice_and_guest 1 = None \<and> written_to t 1 = [''<alice>: hi'']"
proof -
  have "case send_message 0 ''hi'' alice_and_guest of Ok t \<Rightarrow> True | _ \<Rightarrow> False" by code_simp
  then obtain t where r: "send_message 0 ''hi'' alice_and_guest = Ok t" by (auto split: py_result.splits)
  have h: "distinct (clients alice_and_guest)" "login_of alice_and_guest 0 = Some ''alice''" by code_simp+
  have v: "1 \<in> set (clients alice_and_guest)" "login_of alice_and_guest 1 = None" "tstate_of alice_and_guest 1 = Some Open" "written_to alice_and_guest 1 = []"
    by code_simp+
  have l: "chat_line ''alice'' ''hi'' = ''<alice>: hi''" by code_simp
  show ?thesis using send_message_delivery [OF h r, of 1] v l r by auto
qed


text \<open>
  A login and a chat line sent in one chunk: the \<open>login:\<close> prefix and both
  line endings are removed, and the name is the two texts joined.
\<close>

lemma parse_login_coalesced:
  assumes "\<not> occurs ''login:'' (n @ [CHR 0x0D, CHR 0x0A] @ m @ [CHR 0x0D, CHR 0x0A])"
    and "\<not> occurs [CHR 0x0D, CHR 0x0A] (n @ [CHR 0x0D])" "\<not> occurs [CHR 0x0D, CHR 0x0A] (m @ [CHR 0x0D])"
  shows "parse_login (''login:'' @ n @ [CHR 0x0D, CHR 0x0A] @ m @ [CHR 0x0D, CHR 0x0A]) = n @ m"
proof -
  have "py_replace (''login:'' @ n @ [CHR 0x0D, CHR 0x0A] @ m @ [CHR 0x0D, CHR 0x0A]) ''login:'' ''''
      = n @ [CHR 0x0D, CHR 0x0A] @ m @ [CHR 0x0D, CHR 0x0A]"
    using replace_nonempty_prefix [of "''login:''" "[]"] replace_nonempty_absent [OF assms(1)]
    by (simp add: py_replace_def)
  moreover have "replace_nonempty [CHR 0x0D, CHR 0x0A] [] (m @ [CHR 0x0D, CHR 0x0A] @ []) = m"
    using replace_nonempty_sep [of "[CHR 0x0D, CHR 0x0A]" m "[]" "[]"] assms(3)
    by (simp add: replace_nonempty.simps [of _ _ "[]"])
  ultimately show ?thesis
    using replace_nonempty_sep [of "[CHR 0x0D, CHR 0x0A]" n "[]" "m @ [CHR 0x0D, CHR 0x0A]"] assms(2)
    by (simp add: parse_login_def py_replace_def)
qed

text \<open>
  C12: the login name is what follows \<open>login:\<close> when the rest of the chunk
  holds no further \<open>login:\<close> and no CR LF pair. \<open>str.replace\<close> removes every
  occurrence, not only the prefix and the line ending, and a lone LF (or CR)
  stays part of the name, as the witness shows.
\<close>

theorem parse_login_prefix:
  assumes "\<not> occurs ''login:'' n" and "\<not> occurs [CHR 0x0D, CHR 0x0A] n"
  shows "parse_login (''login:'' @ n) = n"
proof -
  have "replace_nonempty ''login:'' [] (''login:'' @ n) = n"
    using replace_nonempty_prefix [of "''login:''" "[]" n] replace_nonempty_absent [OF assms(1)]
    by simp
  then show ?thesis
    using replace_nonempty_absent [OF assms(2)] by (simp add: parse_login_def py_replace_def)
qed

theorem parse_login_prefix_witness:
  "parse_login (''login:'' @ ''bob'' @ [CHR 0x0A]) = ''bob'' @ [CHR 0x0A]
   \<and> parse_login ''login:bob\<newline>'' \<noteq> ''bob''"
proof -
  have "\<not> occurs ''login:'' (''bob'' @ [CHR 0x0A])" "\<not> occurs [CHR 0x0D, CHR 0x0A] (''bob'' @ [CHR 0x0A])"
    by simp_all
  then show ?thesis using parse_login_prefix by simp
qed

end
