(* ===== verification/Event_Loop.thy ===== *)
theory Event_Loop
  imports Protocol
begin

text \<open>
  The asyncio event loop and listener (\<open>Server.start\<close>, \<open>loop.create_server\<close>,
  \<open>server.py\<close> lines 117--131) run the protocol callbacks one at a time, each
  to its end: there is no interleaving inside a handler. The environment chooses
  which event happens next; \<open>server_step\<close> says what the callback does with it,
  and \<open>None\<close> when asyncio never delivers that event in that state (or when the
  callback runs an SQL statement outside the modelled fragment).
  \<^item> \<open>Accept c\<close>: a connection is accepted; \<open>create_client_protocol\<close> makes the
    protocol \<open>c\<close> (a new object) and \<open>connection_made\<close> runs.
  \<^item> \<open>Receive c data\<close>: a non-empty chunk arrives on an open transport and
    \<open>data_received\<close> runs. An exception escaping it is reported to the loop's
    exception handler and the transport is force-closed
    (\<open>_SelectorTransport._fatal_error\<close>).
  \<^item> \<open>Peer_closed c\<close>: the peer closes or resets an open connection; the
    transport closes itself (\<open>eof_received\<close> returns \<open>None\<close>).
  \<^item> \<open>Lost c\<close>: the scheduled \<open>connection_lost\<close> of a closing transport runs; an
    exception escaping it is reported, and the transport is closed anyway.
\<close>

datatype event = Accept conn | Receive conn pystr | Peer_closed conn | Lost conn

definition report :: "conn \<Rightarrow> py_error \<Rightarrow> server \<Rightarrow> server" where
  "report c e s = s\<lparr>errors := errors s @ [(c, e)]\<rparr>"

definition fatal_error :: "conn \<Rightarrow> py_error \<Rightarrow> server \<Rightarrow> server" where
  "fatal_error c e s = force_close_transport c (report c e s)"

definition mark_closed :: "conn \<Rightarrow> server \<Rightarrow> server" where
  "mark_closed c = update_protocol c (\<lambda>p. p\<lparr>transport := (transport p)\<lparr>tstate := Closed\<rparr>\<rparr>)"

definition call_connection_lost :: "conn \<Rightarrow> server \<Rightarrow> server option" where
  "call_connection_lost c s =
     (case connection_lost c s of
        Ok s' \<Rightarrow> Some (mark_closed c s')
      | Exc e s' \<Rightarrow> Some (mark_closed c (report c e s'))
      | Outside_model \<Rightarrow> None)"

fun server_step :: "server \<Rightarrow> event \<Rightarrow> server option" where
  "server_step s (Accept c) =
     (if protocols s c = None then Some (connection_made c s) else None)"
| "server_step s (Receive c data) =
     (if tstate_of s c = Some Open \<and> data \<noteq> [] then
        (case data_received c data s of
           Ok s' \<Rightarrow> Some s'
         | Exc e s' \<Rightarrow> Some (fatal_error c e s')
         | Outside_model \<Rightarrow> None)
      else None)"
| "server_step s (Peer_closed c) =
     (if tstate_of s c = Some Open then Some (close_transport c s) else None)"
| "server_step s (Lost c) =
     (if tstate_of s c = Some Closing then call_connection_lost c s else None)"

fun run :: "server \<Rightarrow> event list \<Rightarrow> server option" where
  "run s [] = Some s"
| "run s (e # es) = (case server_step s e of None \<Rightarrow> None | Some t \<Rightarrow> run t es)"

inductive reach :: "server \<Rightarrow> bool" where
  init: "reach server_init"
| step: "reach s \<Longrightarrow> server_step s e = Some t \<Longrightarrow> reach t"

text \<open>
  The module's entry point (lines 134--138): \<open>process = Server()\<close> is
  \<open>server_init\<close> (with the module-level \<open>history\<close> of line 35), and
  \<open>asyncio.run(process.start())\<close> serves the events the environment delivers
  until the process receives a keyboard interrupt; \<open>except KeyboardInterrupt\<close>
  then prints and the process ends, so no callback runs after it. \<open>serve\<close>
  returns the last state and whether the interrupt ended it.
\<close>

datatype main_input = Deliver event | Keyboard_interrupt

fun serve :: "server \<Rightarrow> main_input list \<Rightarrow> (server \<times> bool) option" where
  "serve s [] = Some (s, False)"
| "serve s (Keyboard_interrupt # _) = Some (s, True)"
| "serve s (Deliver e # is) = (case server_step s e of None \<Rightarrow> None | Some t \<Rightarrow> serve t is)"

definition main :: "main_input list \<Rightarrow> (server \<times> bool) option" where
  "main is = serve server_init is"

subsection \<open>Frames and runs\<close>

lemma same_registry_report: "same_registry s (report c e s)"
  by (simp add: same_registry_def report_def login_of_def fun_eq_iff)

lemma same_registry_mark_closed: "same_registry s (mark_closed c s)"
  by (simp add: mark_closed_def same_registry_update_protocol)

lemma run_reach: "reach s \<Longrightarrow> run s es = Some t \<Longrightarrow> reach t"
proof (induction es arbitrary: s)
  case Nil
  then show ?case by simp
next
  case (Cons e es)
  then obtain u where "server_step s e = Some u" and "run u es = Some t"
    by (auto split: option.splits)
  with Cons show ?case by (blast intro: reach.step)
qed

lemma run_append: "run s (xs @ ys) = (case run s xs of None \<Rightarrow> None | Some t \<Rightarrow> run t ys)"
  by (induction xs arbitrary: s) (auto split: option.splits)


lemma report_effects [simp]:
  "written_to (report c e s) = written_to s" "tstate_of (report c e s) = tstate_of s"
  "clients (report c e s) = clients s" "history (report c e s) = history s"
  "errors (report c e s) = errors s @ [(c, e)]"
  by (simp_all add: report_def written_to_def tstate_of_def fun_eq_iff)

lemma written_to_mark_closed [simp]: "written_to (mark_closed c s) = written_to s"
  unfolding fun_eq_iff mark_closed_def written_to_update_protocol by (simp add: written_to_def split: option.split)

lemma calls_of_report [simp]: "calls_of (report c e s) = calls_of s"
  by (simp add: report_def)

lemma calls_of_mark_closed [simp]: "calls_of (mark_closed c s) = calls_of s"
  unfolding fun_eq_iff mark_closed_def
  by (simp add: update_protocol_def calls_of_def split: option.split)

lemma fatal_error_effects:
  assumes "tstate_of s c = Some Open"
  shows "written_to (fatal_error c e s) = written_to s" "tstate_of (fatal_error c e s) c = Some Closing"
    "clients (fatal_error c e s) = clients s" "history (fatal_error c e s) = history s"
    "errors (fatal_error c e s) = errors s @ [(c, e)]"
  using assms by (simp_all add: fatal_error_def tstate_of_force_close_transport)

lemma serve_deliver: "serve s (map Deliver es @ rest) = (case run s es of None \<Rightarrow> None | Some t \<Rightarrow> serve t rest)"
  by (induction es arbitrary: s) (auto split: option.splits)

end
