(* ===== verification/Registry.thy ===== *)
theory Registry
  imports Event_Loop
begin

text \<open>
  The registry \<open>Server.clients\<close> and its invariant: the list holds each
  protocol once, only protocols that exist, and no two of its protocols carry
  the same login (\<open>_existing_login\<close> is checked and the login set in one
  callback, which the event loop never interrupts). One preservation lemma per
  handler, then the invariant of every reachable state by rule induction.
\<close>

definition unique_logins :: "server \<Rightarrow> bool" where
  "unique_logins s \<longleftrightarrow>
     (\<forall>a\<in>set (clients s). \<forall>b\<in>set (clients s). a \<noteq> b \<longrightarrow> login_of s a \<noteq> None \<longrightarrow> login_of s a \<noteq> login_of s b)"

definition registry_inv :: "server \<Rightarrow> bool" where
  "registry_inv s \<longleftrightarrow> distinct (clients s) \<and> set (clients s) \<subseteq> dom (protocols s) \<and> unique_logins s"

lemma registry_inv_frame: "registry_inv s \<Longrightarrow> same_registry s t \<Longrightarrow> registry_inv t"
  by (simp add: registry_inv_def same_registry_def unique_logins_def)

lemma registry_inv_init: "registry_inv server_init"
  by (simp add: registry_inv_def unique_logins_def server_init_def)

lemma connection_made_inv:
  assumes "registry_inv s" and "protocols s c = None"
  shows "registry_inv (connection_made c s)"
proof -
  have "c \<notin> set (clients s)" using assms by (auto simp: registry_inv_def)
  moreover have "login_of (connection_made c s) x = (if x = c then None else login_of s x)" for x
    by (simp add: connection_made_def login_of_def create_client_protocol_def)
  ultimately show ?thesis
    using assms(1) by (auto simp: registry_inv_def unique_logins_def connection_made_def)
qed

lemma login_success_inv:
  assumes "registry_inv s" and "\<not> existing_login l s"
  shows "registry_inv (update_protocol c (\<lambda>p. p\<lparr>login := Some l\<rparr>) s)"
proof -
  let ?t = "update_protocol c (\<lambda>p. p\<lparr>login := Some l\<rparr>) s"
  have new: "login_of ?t x = (if x = c \<and> c \<in> dom (protocols s) then Some l else login_of s x)" for x
    unfolding login_of_update_protocol by (auto simp: login_of_def split: option.split)
  have "\<forall>x\<in>set (clients s). login_of s x \<noteq> Some l"
    using assms(2) by (simp add: existing_login_def list_ex_iff)
  with assms(1) show ?thesis
    by (auto simp: registry_inv_def unique_logins_def new)
qed

lemma remove_client_inv: "registry_inv s \<Longrightarrow> registry_inv (s\<lparr>clients := remove1 c (clients s)\<rparr>)"
  by (auto simp: registry_inv_def unique_logins_def login_of_def dest: in_set_remove1 [THEN iffD1, rotated]
      intro: set_remove1_subset [THEN subsetD])


lemma data_received_inv:
  assumes inv: "registry_inv s"
    and res: "data_received c d s = Ok t \<or> data_received c d s = Exc e t"
  shows "registry_inv t"
proof (cases "py_decode d")
  case (Inl e')
  then show ?thesis using assms by (simp add: data_received_undecodable)
next
  case (Inr decoded)
  show ?thesis
  proof (cases "login_of s c")
    case (Some l)
    with Inr res have "send_message c decoded s = Ok t \<or> send_message c decoded s = Exc e t"
      by (simp add: data_received_chat)
    then have "same_registry s t" by (rule same_registry_send_message)
    with inv show ?thesis by (rule registry_inv_frame)
  next
    case None
    let ?l = "parse_login decoded"
    consider (login) "py_startswith decoded ''login:''" "\<not> existing_login ?l s"
      | (taken) "py_startswith decoded ''login:''" "existing_login ?l s"
      | (other) "\<not> py_startswith decoded ''login:''"
      by blast
    then show ?thesis
    proof cases
      case login
      let ?s1 = "update_protocol c (\<lambda>p. p\<lparr>login := Some ?l\<rparr>) s"
      have i1: "registry_inv ?s1" using inv login(2) by (rule login_success_inv)
      have f: "same_registry ?s1 (send_history c 10 (write_to c (hello_line ?l) ?s1))"
        by (meson same_registry_trans same_registry_write_to same_registry_send_history)
      have "t = send_history c 10 (write_to c (hello_line ?l) ?s1)"
        using res by (simp add: data_received_login [OF Inr None login])
      then show ?thesis using registry_inv_frame [OF i1 f] by simp
    next
      case taken
      let ?s1 = "write_to c (name_taken_line ?l) s"
      have i1: "registry_inv ?s1" using inv same_registry_write_to by (rule registry_inv_frame)
      have i2: "registry_inv (close_transport c (?s1\<lparr>clients := remove1 c (clients s)\<rparr>))"
        using remove_client_inv [OF i1, of c] registry_inv_frame same_registry_close_transport
        by simp
      show ?thesis
      proof (cases "c \<in> set (clients s)")
        case True
        then show ?thesis using res i2 by (simp add: data_received_taken [OF Inr None taken])
      next
        case False
        then show ?thesis using res i1 by (simp add: data_received_taken [OF Inr None taken])
      qed
    next
      case other
      with res inv show ?thesis by (simp add: data_received_ignored [OF Inr None])
    qed
  qed
qed

lemma server_step_inv:
  assumes inv: "registry_inv s" and step: "server_step s e = Some t"
  shows "registry_inv t"
proof (cases e)
  case (Accept c)
  with inv step show ?thesis by (auto intro: connection_made_inv split: if_splits)
next
  case (Receive c d)
  then consider "data_received c d s = Ok t"
    | e' s' where "data_received c d s = Exc e' s'" and "t = fatal_error c e' s'"
    using step by (auto split: if_splits py_result.splits)
  then show ?thesis
  proof cases
    case 1
    with inv show ?thesis by (blast intro: data_received_inv)
  next
    case 2
    then have "registry_inv s'" using inv by (blast intro: data_received_inv)
    then show ?thesis using 2(2) unfolding fatal_error_def
      by (meson registry_inv_frame same_registry_force_close_transport same_registry_report)
  qed
next
  case (Peer_closed c)
  with inv step show ?thesis
    by (auto split: if_splits intro: registry_inv_frame same_registry_close_transport)
next
  case (Lost c)
  then have lost: "call_connection_lost c s = Some t" using step by (simp split: if_splits)
  show ?thesis
  proof (cases "c \<in> set (clients s)")
    case True
    then have "t = mark_closed c (s\<lparr>clients := remove1 c (clients s)\<rparr>)"
      using lost by (simp add: call_connection_lost_def connection_lost_def)
    then show ?thesis using remove_client_inv [OF inv]
      by (meson registry_inv_frame same_registry_mark_closed)
  next
    case False
    then have "t = mark_closed c (report c ValueError s)"
      using lost by (simp add: call_connection_lost_def connection_lost_def)
    then show ?thesis using inv
      by (meson registry_inv_frame same_registry_mark_closed same_registry_report)
  qed
qed

theorem reach_registry_inv: "reach s \<Longrightarrow> registry_inv s"
proof (induction rule: reach.induct)
  case init
  show ?case by (rule registry_inv_init)
next
  case (step s e t)
  then show ?case by (blast intro: server_step_inv)
qed


subsection \<open>The log over reachable states\<close>

text \<open>
  Only a chat message changes the log, and only through \<open>save_message\<close>; so
  the log's invariant (\<open>History.history_inv\<close>) holds in every reachable state.
\<close>


lemma send_message_history:
  "send_message c m s = Ok t \<or> send_message c m s = Exc e t \<Longrightarrow>
   history t = history s \<or> (\<exists>l. save_message l m (history s) = Ok (history t))"
  by (cases "login_of s c"; cases "save_message (the (login_of s c)) m (history s)")
     (auto simp: send_message_def dest: save_message_Exc)

lemma data_received_history:
  assumes "data_received c d s = Ok t \<or> data_received c d s = Exc e t"
  shows "history t = history s \<or> (\<exists>l m. save_message l m (history s) = Ok (history t))"
proof (cases "py_decode d")
  case (Inl e')
  then show ?thesis using assms by (simp add: data_received_undecodable)
next
  case (Inr m)
  show ?thesis
  proof (cases "login_of s c")
    case (Some l)
    then show ?thesis using assms Inr send_message_history [of c m s t e]
      by (auto simp: data_received_chat)
  next
    case None
    then show ?thesis using assms Inr
      by (cases "py_startswith m ''login:''"; cases "existing_login (parse_login m) s")
         (auto simp: data_received_ignored data_received_login data_received_taken Let_def
               split: if_splits)
  qed
qed

lemma history_report [simp]: "history (report c e s) = history s"
  by (simp add: report_def)

lemma history_mark_closed [simp]: "history (mark_closed c s) = history s"
  by (simp add: mark_closed_def)

lemma server_step_history:
  assumes "server_step s e = Some t"
  shows "history t = history s \<or> (\<exists>l m. save_message l m (history s) = Ok (history t))"
proof (cases e)
  case (Accept c)
  with assms show ?thesis by (auto simp: connection_made_def split: if_splits)
next
  case (Receive c d)
  then consider "data_received c d s = Ok t"
    | e' s' where "data_received c d s = Exc e' s'" and "t = fatal_error c e' s'"
    using assms by (auto split: if_splits py_result.splits)
  then show ?thesis
  proof cases
    case 1
    then show ?thesis using data_received_history [of c d s t] by blast
  next
    case 2
    then show ?thesis using data_received_history [of c d s s' e'] by (simp add: fatal_error_def)
  qed
next
  case (Peer_closed c)
  with assms show ?thesis by (auto split: if_splits)
next
  case (Lost c)
  with assms show ?thesis
    by (auto simp: call_connection_lost_def connection_lost_def split: if_splits py_result.splits sum.splits)
qed

lemma reach_history_inv: "reach s \<Longrightarrow> history_inv (history s)"
proof (induction rule: reach.induct)
  case init
  show ?case by (simp add: server_init_def history_inv_init)
next
  case (step s e t)
  then show ?case using server_step_history [OF step.hyps(2)] by (auto intro: save_message_inv)
qed

lemma reach_dense_log: "reach s \<Longrightarrow> dense_log (history s)"
proof (induction rule: reach.induct)
  case init
  show ?case by (simp add: server_init_def history_init_def dense_log_def)
next
  case (step s e t)
  then show ?case using server_step_history [OF step.hyps(2)] by (auto intro: save_message_dense)
qed

subsection \<open>Properties\<close>

text \<open>
  C1: in every reachable state, two different protocols of
  \<open>Server.clients\<close> never hold the same login.
\<close>

theorem logins_unique:
  assumes "reach s" and "a \<in> set (clients s)" and "b \<in> set (clients s)" and "a \<noteq> b"
    and "login_of s a = Some l"
  shows "login_of s b \<noteq> Some l"
proof -
  have "unique_logins s" using reach_registry_inv [OF assms(1)] by (simp add: registry_inv_def)
  then have "login_of s a \<noteq> login_of s b"
    using assms(2-5) unfolding unique_logins_def by blast
  then show ?thesis using assms(5) by simp
qed

theorem logins_unique_witness:
  "\<exists>t. run server_init [Accept 0, Receive 0 ''login:alice'', Accept 1, Receive 1 ''login:bob''] = Some t
     \<and> login_of t 0 = Some ''alice'' \<and> login_of t 1 \<noteq> Some ''alice''"
proof -
  have "map_option (\<lambda>t. (clients t, login_of t 0))
          (run server_init [Accept 0, Receive 0 ''login:alice'', Accept 1, Receive 1 ''login:bob''])
        = Some ([0, 1], Some ''alice'')"
    by code_simp
  then obtain t where r: "run server_init [Accept 0, Receive 0 ''login:alice'', Accept 1, Receive 1 ''login:bob''] = Some t"
    and c: "clients t = [0, 1]" and l: "login_of t 0 = Some ''alice''"
    by auto
  have "reach t" using reach.init r by (rule run_reach)
  then have "login_of t 1 \<noteq> Some ''alice''"
    by (rule logins_unique [where a = 0]) (simp_all add: c l)
  with r l show ?thesis by blast
qed

text \<open>
  C19: in every reachable state the keys of the log are exactly \<open>1, \<dots>, n\<close>
  for its \<open>n\<close> rows: every key is between 1 and the number of saved
  messages, none is skipped and none is used twice.
\<close>

theorem message_ids_dense:
  "reach s \<Longrightarrow> map fst (messages (history s)) = [1..<Suc (length (messages (history s)))]"
  using reach_dense_log by (simp add: dense_log_def)

theorem message_ids_dense_witness:
  "\<exists>t. run server_init [Accept 0, Receive 0 ''login:alice'', Receive 0 ''hi'', Accept 1, Receive 0 ''yo''] = Some t
     \<and> length (messages (history t)) = 2 \<and> map fst (messages (history t)) = [1..<Suc 2]"
proof -
  have "map_option (\<lambda>t. length (messages (history t)))
          (run server_init [Accept 0, Receive 0 ''login:alice'', Receive 0 ''hi'', Accept 1, Receive 0 ''yo''])
        = Some 2"
    by code_simp
  then obtain t where r: "run server_init [Accept 0, Receive 0 ''login:alice'', Receive 0 ''hi'', Accept 1, Receive 0 ''yo''] = Some t"
    and n: "length (messages (history t)) = 2"
    by auto
  have "reach t" using reach.init r by (rule run_reach)
  then have "map fst (messages (history t)) = [1..<Suc (length (messages (history t)))]"
    by (rule message_ids_dense)
  with r n show ?thesis by (intro exI [of _ t] conjI) simp_all
qed

end
