(* ===== verification/Lifecycle.thy ===== *)
theory Lifecycle
  imports Registry
begin

text \<open>
  The life of a connection: which transports the registry lists, and how every
  connection ends. \<open>conn_wf\<close> ties \<open>Server.clients\<close> to the transports'
  states: a listed protocol's transport is open or closing, never closed, and an
  open transport's protocol is listed (\<open>connection_made\<close> appends it, and only
  the name-taken branch removes a protocol whose transport is still open, closing
  it in the same callback).
\<close>

definition conn_wf :: "server \<Rightarrow> bool" where
  "conn_wf s \<longleftrightarrow>
     (\<forall>c\<in>set (clients s). tstate_of s c = Some Open \<or> tstate_of s c = Some Closing) \<and>
     (\<forall>c. tstate_of s c = Some Open \<longrightarrow> c \<in> set (clients s))"

text \<open>
  \<open>same_transports\<close>: the list and every transport's state are unchanged
  (writes, logins, the log and error reports).
\<close>

definition same_transports :: "server \<Rightarrow> server \<Rightarrow> bool" where
  "same_transports s t \<longleftrightarrow> clients t = clients s \<and> tstate_of t = tstate_of s"

text \<open>
  The events that end one connection, as the environment delivers them: the
  peer closes an open transport, then the scheduled \<open>connection_lost\<close> runs;
  a closing transport only waits for the latter. \<open>shutdown_events\<close> ends the
  connections of a list one after the other.
\<close>

definition close_events :: "server \<Rightarrow> conn \<Rightarrow> event list" where
  "close_events s c =
     (case tstate_of s c of
        Some Open \<Rightarrow> [Peer_closed c, Lost c]
      | Some Closing \<Rightarrow> [Lost c]
      | _ \<Rightarrow> [])"

fun shutdown_events :: "server \<Rightarrow> conn list \<Rightarrow> event list" where
  "shutdown_events s [] = []"
| "shutdown_events s (c # cs) = close_events s c @ shutdown_events s cs"

text \<open>The connection an event belongs to.\<close>

fun event_conn :: "event \<Rightarrow> conn" where
  "event_conn (Accept c) = c"
| "event_conn (Receive c d) = c"
| "event_conn (Peer_closed c) = c"
| "event_conn (Lost c) = c"

subsection \<open>Transport states under the handlers\<close>

lemma same_transports_refl [simp]: "same_transports s s"
  by (simp add: same_transports_def)

lemma same_transports_trans [trans]:
  "same_transports s t \<Longrightarrow> same_transports t u \<Longrightarrow> same_transports s u"
  by (simp add: same_transports_def)

lemma tstate_of_set_login [simp]:
  "tstate_of (update_protocol c (\<lambda>p. p\<lparr>login := l\<rparr>) s) = tstate_of s"
  unfolding fun_eq_iff tstate_of_update_protocol by (simp add: tstate_of_def option.map_comp comp_def)

lemma dom_tstate_of: "dom (protocols s) = {c. tstate_of s c \<noteq> None}"
  by (auto simp: tstate_of_def)

lemma tstate_of_connection_made:
  "tstate_of (connection_made c s) x = (if x = c then Some Open else tstate_of s x)"
  by (simp add: connection_made_def tstate_of_def create_client_protocol_def)

lemma tstate_of_mark_closed:
  "tstate_of (mark_closed c s) x =
     (if x = c \<and> tstate_of s c \<noteq> None then Some Closed else tstate_of s x)"
  unfolding mark_closed_def tstate_of_update_protocol by (auto simp: tstate_of_def)

lemma clients_mark_closed [simp]: "clients (mark_closed c s) = clients s"
  by (simp add: mark_closed_def)

lemma clients_broadcast [simp]: "clients (broadcast xs sender d s) = clients s"
  using same_registry_broadcast [of s xs sender d] by (simp add: same_registry_def)

lemma clients_connection_made: "clients (connection_made c s) = clients s @ [c]"
  by (simp add: connection_made_def)

lemma same_transports_send_message:
  "send_message c m s = Ok t \<or> send_message c m s = Exc e t \<Longrightarrow> same_transports s t"
  by (auto simp: send_message_def save_message_def same_transports_def
      split: option.splits sql_outcome.splits)

text \<open>
  Every run of \<open>data_received\<close>, returning or raising, keeps the transports, or
  is the name-taken branch: the protocol leaves the list and its transport closes.
\<close>

lemma data_received_transports:
  assumes res: "data_received c d s = Ok t \<or> data_received c d s = Exc e t"
  shows "same_transports s t \<or>
         (\<exists>s1. same_transports s s1 \<and> t = close_transport c (s1\<lparr>clients := remove1 c (clients s)\<rparr>))"
  using res
proof (cases rule: data_received_cases)
  case (chat l m)
  then show ?thesis by (simp add: same_transports_send_message)
next
  case (taken l)
  have "same_transports s (write_to c (name_taken_line l) s)" by (simp add: same_transports_def)
  then show ?thesis using taken(4) by blast
qed (simp_all add: same_transports_def)

subsection \<open>The invariant\<close>

lemma conn_wf_frame: "conn_wf s \<Longrightarrow> same_transports s t \<Longrightarrow> conn_wf t"
  by (simp add: conn_wf_def same_transports_def)

lemma conn_wf_init: "conn_wf server_init"
  by (simp add: conn_wf_def server_init_def tstate_of_def)

lemma conn_wf_close_transport: "conn_wf s \<Longrightarrow> conn_wf (close_transport c s)"
  by (auto simp: conn_wf_def tstate_of_close_transport)

lemma conn_wf_force_close_transport: "conn_wf s \<Longrightarrow> conn_wf (force_close_transport c s)"
  by (auto simp: conn_wf_def tstate_of_force_close_transport)

lemma conn_wf_connection_made: "conn_wf s \<Longrightarrow> conn_wf (connection_made c s)"
  by (auto simp: conn_wf_def tstate_of_connection_made clients_connection_made)

lemma conn_wf_refuse:
  "conn_wf s \<Longrightarrow> conn_wf (close_transport c (s\<lparr>clients := remove1 c (clients s)\<rparr>))"
  by (auto simp: conn_wf_def tstate_of_close_transport dest: in_set_remove1 [THEN iffD1, rotated]
      intro: in_set_remove1 [THEN iffD2])

lemma conn_wf_lost:
  assumes "conn_wf s" and "tstate_of s c \<noteq> Some Open"
    and "set (clients t) = set (clients s) - {c}" and "tstate_of t = tstate_of s"
  shows "conn_wf (mark_closed c t)"
  using assms by (auto simp: conn_wf_def tstate_of_mark_closed)

lemma conn_wf_data_received:
  assumes "conn_wf s" and "data_received c d s = Ok t \<or> data_received c d s = Exc e t"
  shows "conn_wf t"
  using data_received_transports [OF assms(2)]
proof
  assume "same_transports s t"
  with assms(1) show ?thesis by (rule conn_wf_frame)
next
  assume "\<exists>s1. same_transports s s1 \<and> t = close_transport c (s1\<lparr>clients := remove1 c (clients s)\<rparr>)"
  then obtain s1 where f: "same_transports s s1"
    and t: "t = close_transport c (s1\<lparr>clients := remove1 c (clients s1)\<rparr>)"
    by (auto simp: same_transports_def)
  from assms(1) f have "conn_wf s1" by (rule conn_wf_frame)
  then show ?thesis unfolding t by (rule conn_wf_refuse)
qed

lemma conn_wf_fatal_error: "conn_wf s \<Longrightarrow> conn_wf (fatal_error c e s)"
  unfolding fatal_error_def
  by (rule conn_wf_force_close_transport, erule conn_wf_frame) (simp add: same_transports_def)

lemma lost_cases:
  assumes "call_connection_lost c s = Some t"
  obtains u where "t = mark_closed c u" and "clients u = remove1 c (clients s)"
    and "tstate_of u = tstate_of s"
  using assms
  by (cases "c \<in> set (clients s)")
     (auto simp: call_connection_lost_def connection_lost_def remove1_idem)

lemma server_step_conn_wf:
  assumes wf: "conn_wf s" and inv: "registry_inv s" and step: "server_step s e = Some t"
  shows "conn_wf t"
proof (cases e)
  case (Accept c)
  with wf step show ?thesis by (auto intro: conn_wf_connection_made split: if_splits)
next
  case (Receive c d)
  then consider "data_received c d s = Ok t"
    | e' s' where "data_received c d s = Exc e' s'" and "t = fatal_error c e' s'"
    using step by (auto split: if_splits py_result.splits)
  then show ?thesis
    by cases (blast intro: conn_wf_data_received conn_wf_fatal_error wf)+
next
  case (Peer_closed c)
  with wf step show ?thesis by (auto intro: conn_wf_close_transport split: if_splits)
next
  case (Lost c)
  then have closing: "tstate_of s c = Some Closing" and lost: "call_connection_lost c s = Some t"
    using step by (simp_all split: if_splits)
  obtain u where "t = mark_closed c u" and cl: "clients u = remove1 c (clients s)"
    and "tstate_of u = tstate_of s"
    using lost by (rule lost_cases)
  moreover have "set (clients u) = set (clients s) - {c}"
    using inv unfolding cl by (simp add: registry_inv_def)
  ultimately show ?thesis using conn_wf_lost [OF wf] closing by simp
qed

lemma reach_conn_wf: "reach s \<Longrightarrow> conn_wf s"
proof (induction rule: reach.induct)
  case init
  show ?case by (rule conn_wf_init)
next
  case (step s e t)
  then show ?case using reach_registry_inv by (blast intro: server_step_conn_wf)
qed

subsection \<open>The set of connections\<close>

text \<open>
  Only an accepted connection adds a protocol object; no callback forgets one.
  So a reachable state has finitely many.
\<close>

lemma dom_close_transport [simp]: "dom (protocols (close_transport c s)) = dom (protocols s)"
  by (simp add: close_transport_def)

lemma dom_force_close_transport [simp]: "dom (protocols (force_close_transport c s)) = dom (protocols s)"
  by (simp add: force_close_transport_def)

lemma dom_mark_closed [simp]: "dom (protocols (mark_closed c s)) = dom (protocols s)"
  by (simp add: mark_closed_def)

lemma dom_report [simp]: "dom (protocols (report c e s)) = dom (protocols s)"
  by (simp add: report_def)

lemma same_transports_dom: "same_transports s t \<Longrightarrow> dom (protocols t) = dom (protocols s)"
  by (simp add: same_transports_def dom_tstate_of)

lemma data_received_dom:
  assumes "data_received c d s = Ok t \<or> data_received c d s = Exc e t"
  shows "dom (protocols t) = dom (protocols s)"
  using data_received_transports [OF assms]
proof
  assume "same_transports s t"
  then show ?thesis by (rule same_transports_dom)
next
  assume "\<exists>s1. same_transports s s1 \<and> t = close_transport c (s1\<lparr>clients := remove1 c (clients s)\<rparr>)"
  then obtain s1 where "same_transports s s1" and "t = close_transport c (s1\<lparr>clients := remove1 c (clients s)\<rparr>)"
    by blast
  then show ?thesis by (simp add: same_transports_dom)
qed

lemma server_step_dom:
  assumes step: "server_step s e = Some t"
  shows "dom (protocols t) \<subseteq> insert (case e of Accept c \<Rightarrow> c | _ \<Rightarrow> 0) (dom (protocols s))"
proof (cases e)
  case (Accept c)
  with step show ?thesis by (auto simp: connection_made_def split: if_splits)
next
  case (Receive c d)
  then consider "data_received c d s = Ok t"
    | e' s' where "data_received c d s = Exc e' s'" and "t = fatal_error c e' s'"
    using step by (auto split: if_splits py_result.splits)
  then have "dom (protocols t) = dom (protocols s)"
  proof cases
    case 1
    then show ?thesis by (intro data_received_dom disjI1)
  next
    case (2 e' s')
    then have "dom (protocols s') = dom (protocols s)" by (intro data_received_dom disjI2)
    with 2(2) show ?thesis by (simp add: fatal_error_def)
  qed
  then show ?thesis by blast
next
  case (Peer_closed c)
  with step have "t = close_transport c s" by (simp split: if_splits)
  then show ?thesis by auto
next
  case (Lost c)
  then have "call_connection_lost c s = Some t" using step by (simp split: if_splits)
  then obtain u where t: "t = mark_closed c u" and "tstate_of u = tstate_of s" by (rule lost_cases)
  then have "dom (protocols u) = dom (protocols s)" by (simp add: dom_tstate_of)
  then show ?thesis unfolding t by auto
qed

lemma reach_finite: "reach s \<Longrightarrow> finite (dom (protocols s))"
proof (induction rule: reach.induct)
  case init
  show ?case by (simp add: server_init_def)
next
  case (step s e t)
  then show ?case by (meson finite_insert finite_subset server_step_dom)
qed

subsection \<open>Every connection can be closed\<close>

lemma shutdown_events_cong:
  "\<forall>x\<in>set cs. tstate_of t x = tstate_of s x \<Longrightarrow> shutdown_events t cs = shutdown_events s cs"
  by (induction cs) (simp_all add: close_events_def)

lemma lost_step:
  assumes "tstate_of s c = Some Closing"
  shows "\<exists>t. server_step s (Lost c) = Some t \<and> clients t = remove1 c (clients s) \<and>
             tstate_of t = (tstate_of s)(c := Some Closed)"
proof -
  obtain t where lost: "call_connection_lost c s = Some t"
    by (cases "c \<in> set (clients s)") (auto simp: call_connection_lost_def connection_lost_def)
  then obtain u where "t = mark_closed c u" and "clients u = remove1 c (clients s)"
    and "tstate_of u = tstate_of s"
    by (rule lost_cases)
  with assms lost show ?thesis by (auto simp: fun_eq_iff tstate_of_mark_closed)
qed

lemma close_events_run:
  assumes "reach s" and "c \<in> dom (protocols s)"
  shows "\<exists>t. run s (close_events s c) = Some t \<and> clients t = remove1 c (clients s) \<and>
             tstate_of t = (tstate_of s)(c := Some Closed)"
proof -
  obtain st where st: "tstate_of s c = Some st" using assms(2) by (auto simp: tstate_of_def)
  show ?thesis
  proof (cases st)
    case Open
    let ?u = "close_transport c s"
    have "tstate_of ?u c = Some Closing" using st Open by (simp add: tstate_of_close_transport)
    then obtain t where "server_step ?u (Lost c) = Some t" and "clients t = remove1 c (clients ?u)"
      and "tstate_of t = (tstate_of ?u)(c := Some Closed)"
      using lost_step by blast
    with st Open show ?thesis
      by (auto simp: close_events_def fun_eq_iff tstate_of_close_transport)
  next
    case Closing
    with st lost_step [of s c] show ?thesis by (auto simp: close_events_def)
  next
    case Closed
    then have "c \<notin> set (clients s)"
      using reach_conn_wf [OF assms(1)] st by (auto simp: conn_wf_def)
    with st Closed show ?thesis by (auto simp: close_events_def remove1_idem fun_eq_iff)
  qed
qed

lemma shutdown_run:
  assumes "reach s" and "distinct cs" and "set cs \<subseteq> dom (protocols s)"
  shows "\<exists>t. run s (shutdown_events s cs) = Some t \<and> set (clients t) = set (clients s) - set cs \<and>
             (\<forall>x. tstate_of t x = (if x \<in> set cs then Some Closed else tstate_of s x))"
  using assms
proof (induction cs arbitrary: s)
  case Nil
  then show ?case by simp
next
  case (Cons c cs)
  obtain u where u: "run s (close_events s c) = Some u" and cu: "clients u = remove1 c (clients s)"
    and tu: "tstate_of u = (tstate_of s)(c := Some Closed)"
    using close_events_run [OF Cons.prems(1)] Cons.prems(3) by auto
  have ru: "reach u" using Cons.prems(1) u by (rule run_reach)
  have "set cs \<subseteq> dom (protocols u)"
    using Cons.prems(3) tu by (auto simp: dom_tstate_of)
  then obtain t where t: "run u (shutdown_events u cs) = Some t"
    and ct: "set (clients t) = set (clients u) - set cs"
    and tt: "\<forall>x. tstate_of t x = (if x \<in> set cs then Some Closed else tstate_of u x)"
    using Cons.IH [OF ru] Cons.prems(2) by auto
  have "shutdown_events u cs = shutdown_events s cs"
    using Cons.prems(2) tu by (intro shutdown_events_cong) auto
  moreover have "set (clients u) = set (clients s) - {c}"
    using reach_registry_inv [OF Cons.prems(1)] cu by (simp add: registry_inv_def)
  ultimately show ?case
    using u t ct tt tu by (auto simp: run_append)
qed

subsection \<open>Events of one connection leave the others alone\<close>

lemma errors_broadcast [simp]: "errors (broadcast xs sender d s) = errors s"
  by (induction xs arbitrary: s) simp_all

lemma errors_mark_closed [simp]: "errors (mark_closed c s) = errors s"
  by (simp add: mark_closed_def)

lemma data_received_errors:
  assumes "data_received c d s = Ok t \<or> data_received c d s = Exc e t"
  shows "errors t = errors s"
  using assms
proof (cases rule: data_received_cases)
  case (chat l m)
  then show ?thesis
    by (auto simp: send_message_def save_message_def split: option.splits sql_outcome.splits)
qed simp_all

lemma data_received_other:
  assumes "data_received c d s = Ok t \<or> data_received c d s = Exc e t" and "x \<noteq> c"
  shows "tstate_of t x = tstate_of s x \<and> (x \<in> set (clients t) \<longleftrightarrow> x \<in> set (clients s))"
  using data_received_transports [OF assms(1)]
proof
  assume "same_transports s t"
  then show ?thesis by (simp add: same_transports_def)
next
  assume "\<exists>s1. same_transports s s1 \<and> t = close_transport c (s1\<lparr>clients := remove1 c (clients s)\<rparr>)"
  then obtain s1 where "same_transports s s1" and "t = close_transport c (s1\<lparr>clients := remove1 c (clients s)\<rparr>)"
    by blast
  then show ?thesis using assms(2) by (simp add: same_transports_def tstate_of_close_transport in_set_remove1)
qed

subsection \<open>Nothing reaches a transport once it is closed\<close>

lemma written_to_set_login [simp]:
  "written_to (update_protocol c (\<lambda>p. p\<lparr>login := l\<rparr>) s) = written_to s"
  unfolding fun_eq_iff written_to_update_protocol by (simp add: written_to_def split: option.split)

lemma written_to_write_to_closed:
  "tstate_of s x \<noteq> Some Open \<Longrightarrow> written_to (write_to c d s) x = written_to s x"
  by (auto simp: written_to_write_to)

lemma written_to_broadcast_closed:
  "tstate_of s x \<noteq> Some Open \<Longrightarrow> written_to (broadcast xs sender d s) x = written_to s x"
  by (induction xs arbitrary: s) (auto simp: written_to_write_to_closed)

lemma send_message_silent:
  assumes "send_message c m s = Ok t \<or> send_message c m s = Exc e t" and "tstate_of s x \<noteq> Some Open"
  shows "written_to t x = written_to s x"
  using assms
  by (auto simp: send_message_def save_message_def written_to_broadcast_closed
      split: option.splits sql_outcome.splits)

lemma data_received_silent:
  assumes "data_received c d s = Ok t \<or> data_received c d s = Exc e t" and "tstate_of s x \<noteq> Some Open"
  shows "written_to t x = written_to s x"
  using assms(1)
proof (cases rule: data_received_cases)
  case (chat l m)
  then show ?thesis using send_message_silent assms(2) by blast
next
  case (login l)
  then show ?thesis using assms(2) by (auto simp: written_to_send_history written_to_write_to)
next
  case (taken l)
  then show ?thesis using assms(2) by (simp add: written_to_write_to_closed)
next
  case (taken_raises l)
  then show ?thesis using assms(2) by (simp add: written_to_write_to_closed)
qed simp_all

lemma written_to_connection_made:
  "written_to (connection_made c s) x = (if x = c then [] else written_to s x)"
  by (simp add: connection_made_def written_to_def create_client_protocol_def)

lemma step_silent:
  assumes "server_step s e = Some t" and "tstate_of s x \<noteq> Some Open" and "tstate_of s x \<noteq> None"
  shows "written_to t x = written_to s x \<and> tstate_of t x \<noteq> Some Open \<and> tstate_of t x \<noteq> None"
proof (cases e)
  case (Accept c)
  with assms have "t = connection_made c s" and "x \<noteq> c" by (auto simp: tstate_of_def split: if_splits)
  then show ?thesis using assms(2,3)
    by (simp add: tstate_of_connection_made written_to_connection_made)
next
  case (Receive c d)
  then have o: "tstate_of s c = Some Open" using assms(1) by (simp split: if_splits)
  then have xc: "x \<noteq> c" using assms(2) by auto
  consider "data_received c d s = Ok t"
    | e' s' where "data_received c d s = Exc e' s'" and "t = fatal_error c e' s'"
    using assms(1) Receive by (auto split: if_splits py_result.splits)
  then show ?thesis
  proof cases
    case 1
    then show ?thesis using data_received_silent [of c d s t _ x] data_received_other [of c d s t _ x] xc assms(2,3)
      by auto
  next
    case (2 e' s')
    then have "written_to s' x = written_to s x" and "tstate_of s' x = tstate_of s x"
      using data_received_silent [of c d s s' e' x] data_received_other [of c d s s' e' x] xc assms(2)
      by auto
    then show ?thesis using 2(2) xc assms(2,3) by (simp add: fatal_error_def tstate_of_force_close_transport)
  qed
next
  case (Peer_closed c)
  then have "t = close_transport c s" and "x \<noteq> c" using assms(1,2) by (auto split: if_splits)
  then show ?thesis using assms(2,3) by (simp add: tstate_of_close_transport)
next
  case (Lost c)
  then have lost: "call_connection_lost c s = Some t" using assms(1) by (simp split: if_splits)
  then obtain u where "t = mark_closed c u" and "tstate_of u = tstate_of s"
    and "written_to u = written_to s"
    by (cases "c \<in> set (clients s)") (auto simp: call_connection_lost_def connection_lost_def)
  then show ?thesis using assms(2,3) by (auto simp: tstate_of_mark_closed)
qed

subsection \<open>No call reaches a connection out of the list\<close>

text \<open>
  A protocol that has left \<open>Server.clients\<close> (refused, or lost) is not open,
  so none of its own callbacks runs, and the broadcast runs over the list:
  no step calls anything on its transport, and nothing adds it back.
\<close>

lemma send_message_calls:
  "send_message x m s = Ok t \<or> send_message x m s = Exc e t \<Longrightarrow> c \<notin> set (clients s) \<Longrightarrow>
   calls_of t c = calls_of s c \<and> clients t = clients s"
  by (auto simp: send_message_def save_message_def calls_of_broadcast
      split: option.splits sql_outcome.splits)

lemma data_received_calls:
  assumes "data_received x d s = Ok t \<or> data_received x d s = Exc e t"
    and "x \<noteq> c" and "c \<notin> set (clients s)"
  shows "calls_of t c = calls_of s c \<and> c \<notin> set (clients t)"
  using assms(1)
proof (cases rule: data_received_cases)
  case (chat l m)
  show ?thesis using send_message_calls [OF chat(2) assms(3)] assms(3) by simp
next
  case (login l)
  then show ?thesis using assms(2,3) by (simp add: calls_of_send_history calls_of_update_protocol)
next
  case (taken l)
  then show ?thesis using assms(2,3) by (simp add: in_set_remove1)
qed (use assms(2,3) in simp_all)

lemma step_unlisted:
  assumes wf: "conn_wf s" and step: "server_step s e = Some t"
    and out: "c \<notin> set (clients s)" and ex: "tstate_of s c \<noteq> None"
  shows "calls_of t c = calls_of s c \<and> c \<notin> set (clients t) \<and> tstate_of t c \<noteq> None"
proof -
  have no: "tstate_of s c \<noteq> Some Open" using wf out by (auto simp: conn_wf_def)
  have listed: "x \<noteq> c" if "tstate_of s x = Some Open" for x
    using that no by auto
  have "calls_of t c = calls_of s c \<and> c \<notin> set (clients t)"
  proof (cases e)
    case (Accept x)
    with step ex have "t = connection_made x s" and "x \<noteq> c" by (auto simp: tstate_of_def split: if_splits)
    then show ?thesis using out by (simp add: calls_of_connection_made clients_connection_made)
  next
    case (Receive x d)
    then have xc: "x \<noteq> c" using step listed by (simp split: if_splits)
    consider "data_received x d s = Ok t"
      | e' s' where "data_received x d s = Exc e' s'" and "t = fatal_error x e' s'"
      using step Receive by (auto split: if_splits py_result.splits)
    then show ?thesis
    proof cases
      case 1
      then show ?thesis using data_received_calls xc out by blast
    next
      case (2 e' s')
      then have "calls_of s' c = calls_of s c \<and> c \<notin> set (clients s')"
        using data_received_calls [of x d s s' e' c] xc out by blast
      then show ?thesis using 2(2) xc by (simp add: fatal_error_def)
    qed
  next
    case (Peer_closed x)
    then have "t = close_transport x s" and "x \<noteq> c" using step listed by (auto split: if_splits)
    then show ?thesis using out by simp
  next
    case (Lost x)
    then have "call_connection_lost x s = Some t" using step by (simp split: if_splits)
    then show ?thesis using out
      by (cases "x \<in> set (clients s)")
        (auto simp: call_connection_lost_def connection_lost_def dest: in_set_remove1 [THEN iffD1, rotated])
  qed
  then show ?thesis using step_silent [OF step no ex] by simp
qed

lemma run_unlisted:
  "reach s \<Longrightarrow> run s es = Some t \<Longrightarrow> c \<notin> set (clients s) \<Longrightarrow> tstate_of s c \<noteq> None \<Longrightarrow>
   calls_of t c = calls_of s c \<and> c \<notin> set (clients t)"
proof (induction es arbitrary: s)
  case Nil
  then show ?case by simp
next
  case (Cons e es)
  then obtain u where u: "server_step s e = Some u" and r: "run u es = Some t"
    by (auto split: option.splits)
  have "reach u" using Cons.prems(1) u by (rule reach.step)
  moreover have "calls_of u c = calls_of s c \<and> c \<notin> set (clients u) \<and> tstate_of u c \<noteq> None"
    using step_unlisted [OF reach_conn_wf [OF Cons.prems(1)] u Cons.prems(3,4)] .
  ultimately show ?case using Cons.IH [OF _ r] by simp
qed

subsection \<open>Properties\<close>

text \<open>
  C16: in every reachable state the registry and the transports agree: a
  protocol of \<open>Server.clients\<close> has an open or closing transport, never a
  closed one, and every open transport belongs to a listed protocol.
\<close>

theorem registry_transports_agree:
  assumes "reach s"
  shows "(c \<in> set (clients s) \<longrightarrow> tstate_of s c = Some Open \<or> tstate_of s c = Some Closing) \<and>
         (tstate_of s c = Some Open \<longrightarrow> c \<in> set (clients s))"
  using reach_conn_wf [OF assms] by (simp add: conn_wf_def)

theorem registry_transports_agree_witness:
  "\<exists>t. run server_init [Accept 0, Accept 1, Receive 1 ''login:x'', Receive 0 ''login:x''] = Some t
     \<and> clients t = [1] \<and> tstate_of t 0 = Some Closing \<and> tstate_of t 1 = Some Open
     \<and> (1 \<in> set (clients t) \<longrightarrow> tstate_of t 1 = Some Open \<or> tstate_of t 1 = Some Closing)"
proof -
  have "map_option (\<lambda>t. (clients t, tstate_of t 0, tstate_of t 1))
          (run server_init [Accept 0, Accept 1, Receive 1 ''login:x'', Receive 0 ''login:x''])
        = Some ([1], Some Closing, Some Open)"
    by code_simp
  then obtain t where r: "run server_init [Accept 0, Accept 1, Receive 1 ''login:x'', Receive 0 ''login:x''] = Some t"
    and c: "clients t = [1]" and t0: "tstate_of t 0 = Some Closing" and t1: "tstate_of t 1 = Some Open"
    by auto
  have "reach t" using reach.init r by (rule run_reach)
  then have "1 \<in> set (clients t) \<longrightarrow> tstate_of t 1 = Some Open \<or> tstate_of t 1 = Some Closing"
    by (rule registry_transports_agree [THEN conjunct1])
  with r c t0 t1 show ?thesis by (intro exI [of _ t] conjI)
qed

text \<open>
  C17: from every reachable state the environment can end every connection:
  there is a finite sequence of events (each peer closes, each scheduled
  \<open>connection_lost\<close> runs) after which every transport is closed and
  \<open>Server.clients\<close> is empty. No connection is stuck, including one refused
  for a taken name, whose \<open>connection_lost\<close> raises.
\<close>

theorem shutdown_reachable:
  assumes "reach s"
  shows "\<exists>es t. run s es = Some t \<and> clients t = [] \<and> dom (protocols t) = dom (protocols s) \<and>
           (\<forall>c\<in>dom (protocols s). tstate_of t c = Some Closed)"
proof -
  obtain cs where cs: "set cs = dom (protocols s)" and d: "distinct cs"
    using finite_distinct_list [OF reach_finite [OF assms]] by blast
  then obtain t where r: "run s (shutdown_events s cs) = Some t"
    and ct: "set (clients t) = set (clients s) - set cs"
    and tt: "\<forall>x. tstate_of t x = (if x \<in> set cs then Some Closed else tstate_of s x)"
    using shutdown_run [OF assms d] by auto
  have "set (clients s) \<subseteq> dom (protocols s)"
    using reach_registry_inv [OF assms] by (simp add: registry_inv_def)
  then have "set (clients t) = {}" using ct cs by auto
  then have "clients t = []" by simp
  moreover have "dom (protocols t) = dom (protocols s)"
    using tt cs by (auto simp: dom_tstate_of)
  moreover have "\<forall>c\<in>dom (protocols s). tstate_of t c = Some Closed"
    using tt cs by simp
  ultimately show ?thesis using r by blast
qed

theorem shutdown_reachable_witness:
  "\<exists>t. run server_init [Accept 0, Accept 1, Receive 1 ''login:x'', Receive 0 ''login:x''] = Some t
     \<and> clients t = [1] \<and> tstate_of t 0 = Some Closing \<and> tstate_of t 1 = Some Open
     \<and> (\<exists>es u. run t es = Some u \<and> clients u = [] \<and> tstate_of u 0 = Some Closed \<and> tstate_of u 1 = Some Closed)"
proof -
  have "map_option (\<lambda>t. (clients t, tstate_of t 0, tstate_of t 1, tstate_of t 2))
          (run server_init [Accept 0, Accept 1, Receive 1 ''login:x'', Receive 0 ''login:x''])
        = Some ([1], Some Closing, Some Open, None)"
    by code_simp
  then obtain t where r: "run server_init [Accept 0, Accept 1, Receive 1 ''login:x'', Receive 0 ''login:x''] = Some t"
    and c: "clients t = [1]" and t0: "tstate_of t 0 = Some Closing" and t1: "tstate_of t 1 = Some Open"
    by auto
  have d: "0 \<in> dom (protocols t)" "1 \<in> dom (protocols t)"
    using t0 t1 by (simp_all add: dom_tstate_of)
  have "reach t" using reach.init r by (rule run_reach)
  then obtain es u where "run t es = Some u" and "clients u = []"
    and "\<forall>c\<in>dom (protocols t). tstate_of u c = Some Closed"
    using shutdown_reachable by blast
  with r c t0 t1 d show ?thesis by (intro exI [of _ t] conjI exI) auto
qed

text \<open>
  C18: the life of every connection terminates: from any reachable state, at
  most two events of the connection itself (the peer's close, then the
  scheduled \<open>connection_lost\<close>) close its transport and take it out of
  \<open>Server.clients\<close>, other connections' transports untouched; afterwards no
  event of that connection is ever enabled again.
\<close>

theorem connection_terminates:
  assumes "reach s" and "c \<in> dom (protocols s)"
  shows "\<exists>es t. length es \<le> 2 \<and> set es \<subseteq> {Peer_closed c, Lost c} \<and> run s es = Some t \<and>
           tstate_of t c = Some Closed \<and> c \<notin> set (clients t) \<and>
           (\<forall>x. x \<noteq> c \<longrightarrow> tstate_of t x = tstate_of s x) \<and>
           (\<forall>e\<in>{Accept c, Peer_closed c, Lost c} \<union> range (Receive c). server_step t e = None)"
proof -
  obtain t where r: "run s (close_events s c) = Some t" and ct: "clients t = remove1 c (clients s)"
    and tt: "tstate_of t = (tstate_of s)(c := Some Closed)"
    using close_events_run [OF assms] by blast
  have "distinct (clients s)" using reach_registry_inv [OF assms(1)] by (simp add: registry_inv_def)
  then have "c \<notin> set (clients t)" using ct by simp
  moreover have "tstate_of t c = Some Closed" using tt by simp
  then have "protocols t c \<noteq> None" by (auto simp: tstate_of_def)
  moreover have "length (close_events s c) \<le> 2 \<and> set (close_events s c) \<subseteq> {Peer_closed c, Lost c}"
    by (simp add: close_events_def split: option.split tstate.split)
  ultimately show ?thesis using r tt by (intro exI [of _ "close_events s c"] exI [of _ t]) auto
qed

theorem connection_terminates_witness:
  "\<exists>t. run server_init [Accept 0, Receive 0 ''login:alice''] = Some t \<and> tstate_of t 0 = Some Open
     \<and> (\<exists>es u. length es \<le> 2 \<and> run t es = Some u \<and> tstate_of u 0 = Some Closed \<and> server_step u (Lost 0) = None)"
proof -
  have "map_option (\<lambda>t. tstate_of t 0) (run server_init [Accept 0, Receive 0 ''login:alice'']) = Some (Some Open)"
    by code_simp
  then obtain t where r: "run server_init [Accept 0, Receive 0 ''login:alice''] = Some t"
    and t0: "tstate_of t 0 = Some Open"
    by auto
  have "reach t" using reach.init r by (rule run_reach)
  moreover have "0 \<in> dom (protocols t)" using t0 by (simp add: dom_tstate_of)
  ultimately obtain es u where "length es \<le> 2" and "run t es = Some u" and "tstate_of u 0 = Some Closed"
    and "server_step u (Lost 0) = None"
    using connection_terminates [of t 0] by blast
  with r t0 show ?thesis by blast
qed

text \<open>
  C24: an event of one connection, whatever it raises, changes no other
  connection's transport state or membership of \<open>Server.clients\<close>, and every
  error the loop reports for it is attributed to that connection: an exception
  tears down only the session that raised it.
\<close>

theorem events_isolated:
  assumes "server_step s e = Some t" and "x \<noteq> event_conn e"
  shows "tstate_of t x = tstate_of s x \<and> (x \<in> set (clients t) \<longleftrightarrow> x \<in> set (clients s)) \<and>
         (\<exists>errs. errors t = errors s @ errs \<and> (\<forall>p\<in>set errs. fst p = event_conn e))"
proof (cases e)
  case (Accept c)
  with assms(1) have t: "t = connection_made c s" by (simp split: if_splits)
  have "errors (connection_made c s) = errors s @ []" by (simp add: connection_made_def)
  then show ?thesis using t Accept assms(2) by (auto simp: tstate_of_connection_made clients_connection_made)
next
  case (Receive c d)
  then consider "data_received c d s = Ok t"
    | e' s' where "data_received c d s = Exc e' s'" and "t = fatal_error c e' s'"
    using assms(1) by (auto split: if_splits py_result.splits)
  then show ?thesis
  proof cases
    case 1
    then have "errors t = errors s @ []" using data_received_errors [of c d s t] by simp
    then show ?thesis using data_received_other [of c d s t] 1 assms(2) Receive by auto
  next
    case (2 e' s')
    then have "errors t = errors s @ [(c, e')]" using data_received_errors [of c d s s' e'] by (simp add: fatal_error_def)
    moreover have "tstate_of s' x = tstate_of s x \<and> (x \<in> set (clients s') \<longleftrightarrow> x \<in> set (clients s))"
      using data_received_other [of c d s s' e' x] 2(1) assms(2) Receive by simp
    ultimately show ?thesis using 2(2) assms(2) Receive
      by (auto simp: fatal_error_def tstate_of_force_close_transport)
  qed
next
  case (Peer_closed c)
  with assms show ?thesis by (auto simp: tstate_of_close_transport split: if_splits)
next
  case (Lost c)
  then have lost: "call_connection_lost c s = Some t" using assms(1) by (simp split: if_splits)
  show ?thesis
  proof (cases "c \<in> set (clients s)")
    case True
    then have "t = mark_closed c (s\<lparr>clients := remove1 c (clients s)\<rparr>)"
      using lost by (simp add: call_connection_lost_def connection_lost_def)
    then show ?thesis using Lost assms(2)
      by (auto simp: tstate_of_mark_closed in_set_remove1)
  next
    case False
    then have "t = mark_closed c (report c ValueError s)"
      using lost by (simp add: call_connection_lost_def connection_lost_def)
    then show ?thesis using Lost assms(2)
      by (auto simp: tstate_of_mark_closed)
  qed
qed

theorem events_isolated_witness:
  "\<exists>t u. run server_init [Accept 0, Receive 0 ''login:alice'', Accept 1] = Some t
     \<and> server_step t (Receive 0 (''say '' @ dq # ''hi'' @ [dq])) = Some u
     \<and> tstate_of u 0 = Some Closing \<and> errors u = [(0, SqliteError)]
     \<and> tstate_of u 1 = tstate_of t 1 \<and> (1 \<in> set (clients u) \<longleftrightarrow> 1 \<in> set (clients t))"
proof -
  have "map_option (\<lambda>t. map_option (\<lambda>u. (tstate_of u 0, errors u)) (server_step t (Receive 0 (''say '' @ dq # ''hi'' @ [dq]))))
          (run server_init [Accept 0, Receive 0 ''login:alice'', Accept 1])
        = Some (Some (Some Closing, [(0, SqliteError)]))"
    by code_simp
  then obtain t u where r: "run server_init [Accept 0, Receive 0 ''login:alice'', Accept 1] = Some t"
    and u: "server_step t (Receive 0 (''say '' @ dq # ''hi'' @ [dq])) = Some u"
    and h: "tstate_of u 0 = Some Closing" "errors u = [(0, SqliteError)]"
    by (auto split: option.splits)
  have "(1 :: conn) \<noteq> event_conn (Receive 0 (''say '' @ dq # ''hi'' @ [dq]))" by simp
  then have "tstate_of u 1 = tstate_of t 1 \<and> (1 \<in> set (clients u) \<longleftrightarrow> 1 \<in> set (clients t))"
    using events_isolated [OF u] by blast
  with r u h show ?thesis by blast
qed

text \<open>
  C25: once \<open>connection_lost\<close> has run for a connection, the program makes no
  further call on its transport, whatever events follow (no \<open>write\<close> from a
  broadcast, no \<open>close\<close>), and the protocol stays out of \<open>Server.clients\<close>:
  the spec's "no further reads or writes are permitted afterward". The calls
  are those the program makes, whatever the transport does with them.
\<close>

theorem lost_connection_untouched:
  assumes "reach s" and "server_step s (Lost c) = Some s1" and "run s1 es = Some t"
  shows "calls_of t c = calls_of s c \<and> c \<notin> set (clients t)"
proof -
  have closing: "tstate_of s c = Some Closing" and lost: "call_connection_lost c s = Some s1"
    using assms(2) by (simp_all split: if_splits)
  have d: "distinct (clients s)" using reach_registry_inv [OF assms(1)] by (simp add: registry_inv_def)
  have "calls_of s1 c = calls_of s c \<and> c \<notin> set (clients s1)"
    using lost d by (cases "c \<in> set (clients s)")
      (auto simp: call_connection_lost_def connection_lost_def set_remove1_eq)
  moreover have "tstate_of s1 c \<noteq> None" using step_silent [OF assms(2)] closing by simp
  moreover have "reach s1" using assms(1,2) by (rule reach.step)
  ultimately show ?thesis using run_unlisted [OF _ assms(3)] by auto
qed

theorem lost_connection_untouched_witness:
  "\<exists>s s1 t. run server_init [Accept 0, Receive 0 ''login:alice'', Accept 1, Receive 1 ''login:bob'', Peer_closed 1] = Some s
     \<and> server_step s (Lost 1) = Some s1
     \<and> run s1 [Receive 0 ''hi'', Accept 2, Receive 2 ''login:bob'', Receive 0 ''yo''] = Some t
     \<and> calls_of t 1 = calls_of s 1"
proof -
  have "map_option (\<lambda>s. map_option (\<lambda>s1. run s1 [Receive 0 ''hi'', Accept 2, Receive 2 ''login:bob'', Receive 0 ''yo''] \<noteq> None)
          (server_step s (Lost 1)))
          (run server_init [Accept 0, Receive 0 ''login:alice'', Accept 1, Receive 1 ''login:bob'', Peer_closed 1])
        = Some (Some True)"
    by code_simp
  then obtain s where r: "run server_init [Accept 0, Receive 0 ''login:alice'', Accept 1, Receive 1 ''login:bob'', Peer_closed 1] = Some s"
    and h: "map_option (\<lambda>s1. run s1 [Receive 0 ''hi'', Accept 2, Receive 2 ''login:bob'', Receive 0 ''yo''] \<noteq> None)
              (server_step s (Lost 1)) = Some True"
    by (auto simp del: run.simps server_step.simps simp: map_option_eq_Some)
  from h obtain s1 where l: "server_step s (Lost 1) = Some s1"
    and "run s1 [Receive 0 ''hi'', Accept 2, Receive 2 ''login:bob'', Receive 0 ''yo''] \<noteq> None"
    by (auto simp del: run.simps server_step.simps simp: map_option_eq_Some)
  then obtain t where u: "run s1 [Receive 0 ''hi'', Accept 2, Receive 2 ''login:bob'', Receive 0 ''yo''] = Some t"
    by (auto simp del: run.simps)
  have "reach s" using reach.init r by (rule run_reach)
  then have "calls_of t 1 = calls_of s 1" using lost_connection_untouched [OF _ l u] by blast
  with r l u show ?thesis by blast
qed

end
