(* ===== verification/Registry_Abs.thy ===== *)
theory Registry_Abs
  imports Lifecycle
begin

text \<open>
  The spec's ClientRegistry (sections 2, 3 and 5) is a set of sessions keyed by
  display name, changed only by an atomic insert-if-absent at login and by the
  removal of a session when its connection is lost. \<open>registered s\<close> is that
  set read off \<open>Server.clients\<close>: the pairs of a login and the protocol holding
  it; protocols that have not logged in are not part of it.
\<close>

definition registered :: "server \<Rightarrow> (pystr \<times> conn) set" where
  "registered s = set (List.map_filter (\<lambda>c. map_option (\<lambda>l. (l, c)) (login_of s c)) (clients s))"

text \<open>
  What each event may do to the abstract registry: a chunk adds at most one
  pair, for a name nobody holds and a session not yet registered; a lost
  connection removes its session; nothing else changes it.
\<close>

fun registry_spec :: "event \<Rightarrow> (pystr \<times> conn) set \<Rightarrow> (pystr \<times> conn) set \<Rightarrow> bool" where
  "registry_spec (Accept c) R R' \<longleftrightarrow> R' = R"
| "registry_spec (Receive c d) R R' \<longleftrightarrow>
     R' = R \<or> (\<exists>l. l \<notin> fst ` R \<and> c \<notin> snd ` R \<and> R' = insert (l, c) R)"
| "registry_spec (Peer_closed c) R R' \<longleftrightarrow> R' = R"
| "registry_spec (Lost c) R R' \<longleftrightarrow> R' = {p \<in> R. snd p \<noteq> c}"

lemma map_filter_pairs:
  "(l, c) \<in> set (List.map_filter (\<lambda>c. map_option (\<lambda>l. (l, c)) (f c)) xs) \<longleftrightarrow> c \<in> set xs \<and> f c = Some l"
  by (induction xs) (auto simp: map_filter_simps split: option.splits)

lemma registered_iff: "(l, c) \<in> registered s \<longleftrightarrow> c \<in> set (clients s) \<and> login_of s c = Some l"
  by (simp add: registered_def map_filter_pairs)

lemma registered_frame: "same_registry s t \<Longrightarrow> registered t = registered s"
  by (simp add: registered_def same_registry_def)

lemma registered_remove_unregistered:
  assumes "login_of s c = None"
  shows "registered (s\<lparr>clients := remove1 c (clients s)\<rparr>) = registered s"
proof -
  have "b \<in> set (remove1 c (clients s)) \<longleftrightarrow> b \<in> set (clients s)" if "login_of s b = Some a" for a b
    using that assms by (metis in_set_remove1 option.distinct(1))
  then show ?thesis by (auto simp: registered_iff)
qed

lemma login_of_set_login:
  "login_of (update_protocol c (\<lambda>p. p\<lparr>login := Some l\<rparr>) s) x =
     (if x = c \<and> c \<in> dom (protocols s) then Some l else login_of s x)"
  unfolding login_of_update_protocol by (auto simp: login_of_def split: option.split)

lemma registered_set_login:
  assumes "c \<in> set (clients s)" and "set (clients s) \<subseteq> dom (protocols s)"
  shows "registered (update_protocol c (\<lambda>p. p\<lparr>login := Some l\<rparr>) s) = insert (l, c) {p \<in> registered s. snd p \<noteq> c}"
  using assms by (auto simp: registered_iff login_of_set_login split: if_splits)

lemma data_received_registered:
  assumes inv: "registry_inv s"
    and res: "data_received c d s = Ok t \<or> data_received c d s = Exc e t"
  shows "registered t = registered s \<or>
         (\<exists>l. l \<notin> fst ` registered s \<and> c \<notin> snd ` registered s \<and> registered t = insert (l, c) (registered s))"
proof (cases "py_decode d")
  case (Inl e')
  then show ?thesis using res by (simp add: data_received_undecodable)
next
  case (Inr m)
  show ?thesis
  proof (cases "login_of s c")
    case (Some l)
    with Inr res have "send_message c m s = Ok t \<or> send_message c m s = Exc e t"
      by (simp add: data_received_chat)
    then show ?thesis by (simp add: registered_frame same_registry_send_message)
  next
    case None
    then have nc: "c \<notin> snd ` registered s" by (auto simp: registered_iff)
    let ?l = "parse_login m"
    consider (login) "py_startswith m ''login:''" "\<not> existing_login ?l s"
      | (taken) "py_startswith m ''login:''" "existing_login ?l s"
      | (other) "\<not> py_startswith m ''login:''"
      by blast
    then show ?thesis
    proof cases
      case login
      let ?s1 = "update_protocol c (\<lambda>p. p\<lparr>login := Some ?l\<rparr>) s"
      have t: "t = send_history c 10 (write_to c (hello_line ?l) ?s1)"
        using res by (simp add: data_received_login [OF Inr None login])
      have "same_registry ?s1 t"
        unfolding t by (meson same_registry_trans same_registry_write_to same_registry_send_history)
      then have rt: "registered t = registered ?s1" by (rule registered_frame)
      have free: "?l \<notin> fst ` registered s"
        using login(2) by (force simp: registered_iff existing_login_def list_ex_iff)
      show ?thesis
      proof (cases "c \<in> set (clients s)")
        case True
        then have "registered ?s1 = insert (?l, c) (registered s)"
          using inv nc by (auto simp: registered_set_login registry_inv_def)
        then show ?thesis using rt free nc by blast
      next
        case False
        then have "registered ?s1 = registered s"
          by (auto simp: registered_iff login_of_set_login split: if_splits)
        then show ?thesis using rt by simp
      qed
    next
      case taken
      let ?s1 = "write_to c (name_taken_line ?l) s"
      have "registered ?s1 = registered s" by (simp add: registered_frame same_registry_write_to)
      moreover have "registered (close_transport c (?s1\<lparr>clients := remove1 c (clients s)\<rparr>)) = registered ?s1"
        using registered_remove_unregistered [of ?s1 c] None
        by (simp add: registered_frame [OF same_registry_close_transport])
      ultimately show ?thesis using res
        by (auto simp: data_received_taken [OF Inr None taken] Let_def split: if_splits)
    next
      case other
      with res show ?thesis by (simp add: data_received_ignored [OF Inr None])
    qed
  qed
qed

lemma registered_connection_made:
  assumes "protocols s c = None" and "set (clients s) \<subseteq> dom (protocols s)"
  shows "registered (connection_made c s) = registered s"
proof -
  have "login_of (connection_made c s) x = (if x = c then None else login_of s x)" for x
    by (simp add: connection_made_def login_of_def create_client_protocol_def)
  moreover have "c \<notin> set (clients s)" using assms by auto
  ultimately show ?thesis by (auto simp: registered_iff clients_connection_made split: if_splits)
qed

lemma registered_lost:
  assumes "distinct (clients s)"
  shows "registered (s\<lparr>clients := remove1 c (clients s)\<rparr>) = {p \<in> registered s. snd p \<noteq> c}"
  using assms by (auto simp: registered_iff)

lemma server_step_registered:
  assumes inv: "registry_inv s" and step: "server_step s e = Some t"
  shows "registry_spec e (registered s) (registered t)"
proof (cases e)
  case (Accept c)
  with step inv show ?thesis by (auto simp: registered_connection_made registry_inv_def split: if_splits)
next
  case (Receive c d)
  then consider "data_received c d s = Ok t"
    | e' s' where "data_received c d s = Exc e' s'" and "t = fatal_error c e' s'"
    using step by (auto split: if_splits py_result.splits)
  then show ?thesis
  proof cases
    case 1
    then show ?thesis using data_received_registered [OF inv, of c d t] Receive by auto
  next
    case (2 e' s')
    have "same_registry s' t" unfolding 2(2) fatal_error_def
      by (meson same_registry_trans same_registry_report same_registry_force_close_transport)
    then show ?thesis using data_received_registered [OF inv, of c d s' e'] 2(1) Receive
      by (auto simp: registered_frame)
  qed
next
  case (Peer_closed c)
  with step have "t = close_transport c s" by (simp split: if_splits)
  then show ?thesis using Peer_closed by (simp add: registered_frame [OF same_registry_close_transport])
next
  case (Lost c)
  then have lost: "call_connection_lost c s = Some t" using step by (simp split: if_splits)
  have d: "distinct (clients s)" using inv by (simp add: registry_inv_def)
  show ?thesis
  proof (cases "c \<in> set (clients s)")
    case True
    then have "t = mark_closed c (s\<lparr>clients := remove1 c (clients s)\<rparr>)"
      using lost by (simp add: call_connection_lost_def connection_lost_def)
    then show ?thesis using Lost registered_lost [OF d, of c]
      by (simp add: registered_frame [OF same_registry_mark_closed])
  next
    case False
    then have "t = mark_closed c (report c ValueError s)"
      using lost by (simp add: call_connection_lost_def connection_lost_def)
    moreover have "{p \<in> registered s. snd p \<noteq> c} = registered s"
      using False by (auto simp: registered_iff)
    ultimately show ?thesis using Lost
      by (simp add: registered_frame [OF same_registry_mark_closed] registered_frame [OF same_registry_report])
  qed
qed

subsection \<open>Properties\<close>

text \<open>
  C23: \<open>Server.clients\<close> refines the spec's ClientRegistry: in every reachable
  state, each step changes the registered (login, protocol) pairs only as the
  registry's contract allows. A chunk adds at most one pair, with a name no
  registered session holds, for a session not yet registered (an atomic
  insert-if-absent); a lost connection removes exactly its session; accepting
  a connection or the peer closing changes nothing.
\<close>

theorem registry_refinement:
  assumes "reach s" and "server_step s e = Some t"
  shows "registry_spec e (registered s) (registered t)"
  using reach_registry_inv [OF assms(1)] assms(2) by (rule server_step_registered)

theorem registry_refinement_witness:
  "\<exists>t u. run server_init [Accept 0, Receive 0 ''login:alice'', Accept 1] = Some t
     \<and> server_step t (Receive 1 ''login:bob'') = Some u
     \<and> registered t = {(''alice'', 0)} \<and> registered u = {(''bob'', 1), (''alice'', 0)}
     \<and> registry_spec (Receive 1 ''login:bob'') (registered t) (registered u)"
proof -
  have "map_option (\<lambda>t. (registered t, map_option registered (server_step t (Receive 1 ''login:bob''))))
          (run server_init [Accept 0, Receive 0 ''login:alice'', Accept 1])
        = Some ({(''alice'', 0)}, Some {(''bob'', 1), (''alice'', 0)})"
    by code_simp
  then obtain t u where r: "run server_init [Accept 0, Receive 0 ''login:alice'', Accept 1] = Some t"
    and u: "server_step t (Receive 1 ''login:bob'') = Some u"
    and rt: "registered t = {(''alice'', 0)}" and ru: "registered u = {(''bob'', 1), (''alice'', 0)}"
    by (auto split: option.splits)
  have "reach t" using reach.init r by (rule run_reach)
  then have "registry_spec (Receive 1 ''login:bob'') (registered t) (registered u)"
    using u by (rule registry_refinement)
  with r u rt ru show ?thesis by blast
qed

end
