(* ===== verification/Session.thy ===== *)
theory Session
  imports Event_Loop
begin

text \<open>
  The session life cycle of the spec (UNAUTHENTICATED, AUTHENTICATED, CLOSED)
  as an abstraction of the protocol objects, and the refinement: every step of
  the server moves each protocol along the abstract machine, never back from
  AUTHENTICATED, and a login once set never changes.
\<close>

datatype phase = Unauthenticated | Authenticated | Closed_session

definition phase_of :: "server \<Rightarrow> conn \<Rightarrow> phase option" where
  "phase_of s c =
     map_option (\<lambda>p. if tstate (transport p) = Closed then Closed_session
                     else if login p = None then Unauthenticated else Authenticated)
       (protocols s c)"

inductive phase_step :: "phase option \<Rightarrow> phase option \<Rightarrow> bool" where
  stay: "phase_step p p"
| create: "phase_step None (Some Unauthenticated)"
| authenticate: "phase_step (Some Unauthenticated) (Some Authenticated)"
| close_unauthenticated: "phase_step (Some Unauthenticated) (Some Closed_session)"
| close_authenticated: "phase_step (Some Authenticated) (Some Closed_session)"

inductive_cases phase_step_from_authenticated: "phase_step (Some Authenticated) q"
inductive_cases phase_step_from_closed: "phase_step (Some Closed_session) q"

subsection \<open>A frame for one protocol\<close>

text \<open>
  \<open>session_frame s t x\<close>: between \<open>s\<close> and \<open>t\<close> the protocol \<open>x\<close> neither appeared
  nor vanished, kept its login if it had one, and was closed in \<open>t\<close> exactly
  when it was closed in \<open>s\<close>. Every handler stays inside this frame; only
  the loop's \<open>connection_lost\<close> closes.
\<close>

definition session_frame :: "server \<Rightarrow> server \<Rightarrow> conn \<Rightarrow> bool" where
  "session_frame s t x \<longleftrightarrow>
     (protocols t x = None \<longleftrightarrow> protocols s x = None)
     \<and> (login_of s x \<noteq> None \<longrightarrow> login_of t x = login_of s x)
     \<and> (tstate_of t x = Some Closed \<longleftrightarrow> tstate_of s x = Some Closed)"

lemma session_frame_refl [simp]: "session_frame s s x"
  by (simp add: session_frame_def)

lemma session_frame_trans: "session_frame s t x \<Longrightarrow> session_frame t u x \<Longrightarrow> session_frame s u x"
  by (auto simp: session_frame_def)

lemma session_frame_phase: "session_frame s t x \<Longrightarrow> phase_step (phase_of s x) (phase_of t x)"
  unfolding session_frame_def phase_of_def login_of_def tstate_of_def
  by (cases "protocols s x"; cases "protocols t x") (auto intro: phase_step.intros split: if_splits)

lemma session_frame_registry:
  "same_registry s t \<Longrightarrow> tstate_of t = tstate_of s \<Longrightarrow> session_frame s t x"
  by (auto simp: session_frame_def same_registry_def)

lemma session_frame_write_to: "session_frame s (write_to c d s) x"
  by (simp add: session_frame_registry same_registry_write_to)

lemma session_frame_close_transport: "session_frame s (close_transport c s) x"
  using same_registry_close_transport [of s c]
  by (auto simp: session_frame_def same_registry_def tstate_of_close_transport)

lemma session_frame_force_close_transport: "session_frame s (force_close_transport c s) x"
  using same_registry_force_close_transport [of s c]
  by (auto simp: session_frame_def same_registry_def tstate_of_force_close_transport)


lemma session_frame_set_login:
  assumes "login_of s c = None"
  shows "session_frame s (update_protocol c (\<lambda>p. p\<lparr>login := Some l\<rparr>) s) x"
  using assms
  unfolding session_frame_def login_of_update_protocol tstate_of_update_protocol
  by (auto simp: update_protocol_def tstate_of_def login_of_def split: option.splits)

lemma session_frame_send_history: "session_frame s (send_history c n s) x"
  by (simp add: session_frame_registry same_registry_send_history)

lemma session_frame_broadcast: "session_frame s (broadcast xs sender d s) x"
  by (simp add: session_frame_registry same_registry_broadcast)

lemma session_frame_history: "session_frame s (s\<lparr>history := h\<rparr>) x"
  by (simp add: session_frame_def)

lemma session_frame_send_message:
  assumes "send_message c m s = Ok t \<or> send_message c m s = Exc e t"
  shows "session_frame s t x"
proof (cases "login_of s c")
  case None
  then show ?thesis using assms by (simp add: send_message_def)
next
  case (Some l)
  show ?thesis
  proof (cases "save_message l m (history s)")
    case (Ok h)
    then have "t = broadcast (clients s) (Some l) (chat_line l m) (s\<lparr>history := h\<rparr>)"
      using assms Some by (simp add: send_message_def)
    then show ?thesis
      using session_frame_trans [OF session_frame_history session_frame_broadcast] by simp
  next
    case (Exc e' h)
    then show ?thesis using assms Some save_message_Exc [OF Exc]
      by (auto simp: send_message_def)
  next
    case Outside_model
    then show ?thesis using assms Some by (simp add: send_message_def)
  qed
qed


lemma session_frame_data_received:
  assumes res: "data_received c d s = Ok t \<or> data_received c d s = Exc e t"
  shows "session_frame s t x"
proof (cases "py_decode d")
  case (Inl e')
  then show ?thesis using res by (simp add: data_received_undecodable)
next
  case (Inr m)
  show ?thesis
  proof (cases "login_of s c")
    case (Some l)
    with Inr res have "send_message c m s = Ok t \<or> send_message c m s = Exc e t"
      by (simp add: data_received_chat)
    then show ?thesis by (rule session_frame_send_message)
  next
    case None
    let ?l = "parse_login m"
    consider (login) "py_startswith m ''login:''" "\<not> existing_login ?l s"
      | (taken) "py_startswith m ''login:''" "existing_login ?l s"
      | (other) "\<not> py_startswith m ''login:''"
      by blast
    then show ?thesis
    proof cases
      case login
      let ?s1 = "update_protocol c (\<lambda>p. p\<lparr>login := Some ?l\<rparr>) s"
      have "t = send_history c 10 (write_to c (hello_line ?l) ?s1)"
        using res by (simp add: data_received_login [OF Inr None login])
      then show ?thesis
        using session_frame_trans [OF session_frame_set_login [OF None]
            session_frame_trans [OF session_frame_write_to session_frame_send_history]]
        by simp
    next
      case taken
      let ?s1 = "write_to c (name_taken_line ?l) s"
      have f1: "session_frame s ?s1 x" by (rule session_frame_write_to)
      have f2: "session_frame s (close_transport c (?s1\<lparr>clients := remove1 c (clients s)\<rparr>)) x"
        using session_frame_trans [OF f1 session_frame_trans [OF _ session_frame_close_transport]]
        by (simp add: session_frame_def)
      show ?thesis using res f1 f2
        by (cases "c \<in> set (clients s)") (simp_all add: data_received_taken [OF Inr None taken])
    next
      case other
      with res show ?thesis by (simp add: data_received_ignored [OF Inr None])
    qed
  qed
qed

lemma session_frame_report: "session_frame s (report c e s) x"
  by (simp add: session_frame_def report_def login_of_def tstate_of_def)

lemma mark_closed_other: "x \<noteq> c \<Longrightarrow> session_frame s (mark_closed c s) x"
  unfolding session_frame_def mark_closed_def login_of_update_protocol tstate_of_update_protocol
  by (simp add: update_protocol_def)

lemma mark_closed_self:
  "tstate_of s c = Some Closing \<Longrightarrow>
   login_of (mark_closed c s) c = login_of s c \<and> phase_of (mark_closed c s) c = Some Closed_session"
  by (auto simp: mark_closed_def update_protocol_def tstate_of_def login_of_def phase_of_def)

lemma server_step_session:
  assumes step: "server_step s e = Some t"
  shows "session_frame s t x
    \<or> (protocols s x = None \<and> phase_of t x = Some Unauthenticated \<and> login_of t x = None)
    \<or> (tstate_of s x = Some Closing \<and> login_of t x = login_of s x \<and> phase_of t x = Some Closed_session)"
proof (cases e)
  case (Accept c)
  then have c: "protocols s c = None" and t: "t = connection_made c s"
    using step by (auto split: if_splits)
  show ?thesis
  proof (cases "x = c")
    case True
    then show ?thesis using c t
      by (simp add: connection_made_def phase_of_def login_of_def create_client_protocol_def)
  next
    case False
    then show ?thesis using t
      by (simp add: session_frame_def connection_made_def login_of_def tstate_of_def)
  qed
next
  case (Receive c d)
  then consider "data_received c d s = Ok t"
    | e' s' where "data_received c d s = Exc e' s'" and "t = fatal_error c e' s'"
    using step by (auto split: if_splits py_result.splits)
  then show ?thesis
  proof cases
    case 1
    then show ?thesis using session_frame_data_received [of c d s t] by blast
  next
    case 2
    have "session_frame s s' x" using 2(1) by (blast intro: session_frame_data_received)
    then show ?thesis using 2(2) unfolding fatal_error_def
      by (blast intro: session_frame_trans session_frame_report session_frame_force_close_transport)
  qed
next
  case (Peer_closed c)
  then show ?thesis using step
    by (auto split: if_splits intro: session_frame_close_transport)
next
  case (Lost c)
  then have closing: "tstate_of s c = Some Closing" and lost: "call_connection_lost c s = Some t"
    using step by (simp_all split: if_splits)
  obtain s' where t: "t = mark_closed c s'" and f: "session_frame s s' c \<and> session_frame s s' x"
    and l: "login_of s' c = login_of s c" and ts: "tstate_of s' c = tstate_of s c"
    using lost
    by (cases "c \<in> set (clients s)")
       (auto simp: call_connection_lost_def connection_lost_def session_frame_def report_def
             login_of_def tstate_of_def)
  show ?thesis
  proof (cases "x = c")
    case True
    then show ?thesis using mark_closed_self [of s' c] closing l ts t by simp
  next
    case False
    then show ?thesis using t f mark_closed_other [OF False, of s'] by (blast intro: session_frame_trans)
  qed
qed

text \<open>
  The server refines the spec's session machine: in every step, each
  protocol either stays in its phase or moves from nothing to
  UNAUTHENTICATED, from UNAUTHENTICATED to AUTHENTICATED, or from either to
  CLOSED.
\<close>

lemma session_refinement:
  assumes "server_step s e = Some t"
  shows "phase_step (phase_of s x) (phase_of t x)"
  using server_step_session [OF assms, of x]
proof (elim disjE conjE)
  assume "session_frame s t x"
  then show ?thesis by (rule session_frame_phase)
next
  assume "protocols s x = None" "phase_of t x = Some Unauthenticated"
  moreover have "phase_of s x = None" using \<open>protocols s x = None\<close> by (simp add: phase_of_def)
  ultimately show ?thesis using phase_step.create by simp
next
  assume "tstate_of s x = Some Closing" "phase_of t x = Some Closed_session"
  then show ?thesis
    by (auto simp: phase_of_def tstate_of_def intro: phase_step.intros)
qed

text \<open>
  C7: a login, once set, never changes: no step of the server renames a
  protocol or takes its login back.
\<close>

theorem login_immutable:
  assumes "server_step s e = Some t" and "login_of s x = Some l"
  shows "login_of t x = Some l"
  using server_step_session [OF assms(1), of x] assms(2)
  by (auto simp: session_frame_def login_of_def)


theorem login_immutable_witness:
  "\<exists>t. server_step alice_and_guest (Receive 0 ''login:bob'') = Some t
     \<and> login_of alice_and_guest 0 = Some ''alice'' \<and> login_of t 0 = Some ''alice''"
proof -
  have "server_step alice_and_guest (Receive 0 ''login:bob'') \<noteq> None" by code_simp
  then obtain t where r: "server_step alice_and_guest (Receive 0 ''login:bob'') = Some t" by auto
  have l: "login_of alice_and_guest 0 = Some ''alice''" by code_simp
  show ?thesis using login_immutable [OF r l] r l by blast
qed

end
