(* ===== verification/Code_Points.thy ===== *)
theory Code_Points
  imports Py_Str
begin

text \<open>
  The code points behind \<open>Py_Str\<close>. CPython's \<open>data.decode()\<close> turns the
  bytes into a sequence of code points, and \<open>str.strip()\<close>
  (\<open>_PyUnicode_XStrip\<close>) skips whitespace code points from the left, then from
  the right. \<open>utf8_chunks\<close> is that decoding, each code point given by its
  encoding (\<open>utf8_first\<close> reads the length of the first one from its lead
  byte and checks its continuation bytes against Unicode's table 3-7);
  \<open>cp_strip\<close> is CPython's strip on it. The theory proves that the decoder
  accepts exactly what \<open>utf8_valid\<close> accepts, that UTF-8 is prefix-free and
  suffix-free on code points, and that \<open>py_strip\<close>, which works on the
  encoding, is CPython's strip.
\<close>

definition lead_len :: "char \<Rightarrow> nat" where
  "lead_len c =
     (let b = (of_char c :: nat) in
      if b < 128 then 1 else if 194 \<le> b \<and> b \<le> 223 then 2
      else if 224 \<le> b \<and> b \<le> 239 then 3 else if 240 \<le> b \<and> b \<le> 244 then 4 else 0)"

definition second_range :: "char \<Rightarrow> nat \<times> nat" where
  "second_range c =
     (let b = (of_char c :: nat) in
      if b = 224 then (160, 191) else if b = 237 then (128, 159)
      else if b = 240 then (144, 191) else if b = 244 then (128, 143) else (128, 191))"

definition cont_byte :: "char \<Rightarrow> bool" where
  "cont_byte c \<longleftrightarrow> byte_in c 128 191"

fun tail_ok :: "char \<Rightarrow> pystr \<Rightarrow> bool" where
  "tail_ok c [] = True"
| "tail_ok c (d # ds) = (byte_in d (fst (second_range c)) (snd (second_range c)) \<and> list_all cont_byte ds)"

definition utf8_first :: "pystr \<Rightarrow> nat option" where
  "utf8_first s =
     (case s of
        [] \<Rightarrow> None
      | c # cs \<Rightarrow>
          if 0 < lead_len c \<and> lead_len c \<le> length s \<and> tail_ok c (take (lead_len c - 1) cs)
          then Some (lead_len c) else None)"

lemma utf8_first_len: "utf8_first s = Some n \<Longrightarrow> n = lead_len (hd s) \<and> 1 \<le> n \<and> n \<le> length s"
  by (auto simp: utf8_first_def split: list.splits if_splits)

lemma utf8_first_take:
  assumes "utf8_first s = Some n"
  shows "utf8_first (take n s @ t) = Some n"
proof (cases s)
  case Nil
  with assms show ?thesis by (simp add: utf8_first_def)
next
  case (Cons c cs)
  with assms have n: "n = lead_len c" "0 < n" "n \<le> Suc (length cs)" "tail_ok c (take (n - 1) cs)"
    by (auto simp: utf8_first_def split: if_splits)
  have "take n s @ t = c # (take (n - 1) cs @ t)" using Cons n(2) by (cases n) simp_all
  moreover have "take (n - 1) (take (n - 1) cs @ t) = take (n - 1) cs" using n(3) by simp
  ultimately show ?thesis using n by (simp add: utf8_first_def)
qed

lemma second_range_cont: "byte_in d (fst (second_range c)) (snd (second_range c)) \<Longrightarrow> cont_byte d"
  by (auto simp: second_range_def Let_def byte_in_def cont_byte_def split: if_splits)

lemma tail_ok_cont: "tail_ok c ds \<Longrightarrow> list_all cont_byte ds"
  by (cases ds) (auto dest: second_range_cont)

lemma lead_not_cont: "0 < lead_len c \<Longrightarrow> \<not> cont_byte c"
  by (auto simp: lead_len_def Let_def cont_byte_def byte_in_def split: if_splits)

lemma utf8_first_shape:
  assumes "utf8_first s = Some n"
  shows "\<not> cont_byte (hd s) \<and> list_all cont_byte (take (n - 1) (tl s))"
  using assms by (auto simp: utf8_first_def lead_not_cont tail_ok_cont split: list.splits if_splits)

function utf8_chunks :: "pystr \<Rightarrow> pystr list option" where
  "utf8_chunks s =
     (if s = [] then Some []
      else case utf8_first s of
             None \<Rightarrow> None
           | Some n \<Rightarrow> map_option (Cons (take n s)) (utf8_chunks (drop n s)))"
  by pat_completeness auto
termination
proof (relation "measure length")
  fix s n
  assume "s \<noteq> []" and "utf8_first s = Some n"
  then have "1 \<le> n" and "n \<le> length s" using utf8_first_len by blast+
  then show "(drop n s, s) \<in> measure length" by simp
qed simp

declare utf8_chunks.simps [simp del]

lemma utf8_chunks_Nil [simp]: "utf8_chunks [] = Some []"
  by (simp add: utf8_chunks.simps)

definition is_cp :: "pystr \<Rightarrow> bool" where
  "is_cp w \<longleftrightarrow> utf8_first w = Some (length w)"

definition cp_strip :: "pystr list \<Rightarrow> pystr list" where
  "cp_strip cps = rev (dropWhile (\<lambda>c. c \<in> set py_ws) (rev (dropWhile (\<lambda>c. c \<in> set py_ws) cps)))"

lemma is_cp_shape:
  assumes "is_cp w"
  shows "w \<noteq> [] \<and> \<not> cont_byte (hd w) \<and> list_all cont_byte (tl w)"
proof -
  have "1 \<le> length w" using utf8_first_len assms unfolding is_cp_def by blast
  moreover have "take (length w - 1) (tl w) = tl w" by simp
  ultimately show ?thesis using utf8_first_shape [of w "length w"] assms unfolding is_cp_def by auto
qed

lemma utf8_chunks_concat: "utf8_chunks s = Some cs \<Longrightarrow> concat cs = s"
proof (induction s arbitrary: cs rule: utf8_chunks.induct)
  case (1 s)
  then show ?case
    by (cases "s = []") (auto simp: utf8_chunks.simps [of s] split: option.splits)
qed

lemma utf8_chunks_cp: "utf8_chunks s = Some cs \<Longrightarrow> list_all is_cp cs"
proof (induction s arbitrary: cs rule: utf8_chunks.induct)
  case (1 s)
  show ?case
  proof (cases "s = []")
    case True
    then show ?thesis using "1.prems" by (simp add: utf8_chunks.simps [of s])
  next
    case False
    then obtain n where n: "utf8_first s = Some n" and cs: "cs \<noteq> []"
      and rest: "utf8_chunks (drop n s) = Some (tl cs)" and h: "hd cs = take n s"
      using "1.prems" by (auto simp: utf8_chunks.simps [of s] split: option.splits)
    have "utf8_first (take n s @ []) = Some n" using n by (rule utf8_first_take)
    moreover have "length (take n s) = n" using utf8_first_len [OF n] by simp
    ultimately have "is_cp (hd cs)" using h by (simp add: is_cp_def)
    moreover have "list_all is_cp (tl cs)" using "1.IH" [OF False n rest] .
    ultimately show ?thesis using cs by (cases cs) simp_all
  qed
qed

text \<open>UTF-8 is prefix-free and suffix-free on code points.\<close>

lemma cp_prefix:
  assumes "is_cp w" and "is_cp c" and "take (length w) (c @ r) = w"
  shows "w = c"
proof -
  have w: "w \<noteq> []" and c: "c \<noteq> []" using is_cp_shape assms(1,2) by blast+
  then have "hd w = hd c" using assms(3) by (cases w; cases c) auto
  moreover have "length w = lead_len (hd w)" and "length c = lead_len (hd c)"
    using utf8_first_len assms(1,2) unfolding is_cp_def by blast+
  ultimately have "length w = length c" by simp
  then show ?thesis using assms(3) by simp
qed

lemma list_all_tl_nth: "list_all P (tl v) \<Longrightarrow> 0 < k \<Longrightarrow> k < length v \<Longrightarrow> P (v ! k)"
  by (cases v) (auto simp: list_all_iff nth_Cons' split: if_splits)

lemma cp_suffix:
  assumes "is_cp w" and "is_cp c" and d: "drop (length (x @ c) - length w) (x @ c) = w"
  shows "w = c"
proof -
  note sw = is_cp_shape [OF assms(1)] and sc = is_cp_shape [OF assms(2)]
  have le: "length w \<le> length (x @ c)" using arg_cong [OF d, of length] by simp
  consider (lt) "length w < length c" | (eq) "length w = length c" | (gt) "length c < length w"
    by linarith
  then show ?thesis
  proof cases
    case eq
    then show ?thesis using d by simp
  next
    case lt
    then have w: "w = drop (length c - length w) c" using d by simp
    have "length c - length w < length c" using lt sw by (cases w) auto
    then have "hd (drop (length c - length w) c) = c ! (length c - length w)" by (rule hd_drop_conv_nth)
    then have "hd w = c ! (length c - length w)" using w by metis
    moreover have "cont_byte (c ! (length c - length w))"
      using sc lt sw by (intro list_all_tl_nth [where P = cont_byte]) auto
    ultimately show ?thesis using sw by simp
  next
    case gt
    have "drop (length w - length c) w = drop ((length w - length c) + (length (x @ c) - length w)) (x @ c)"
      by (simp only: drop_drop [symmetric] d)
    also have "(length w - length c) + (length (x @ c) - length w) = length x" using le gt by simp
    finally have c: "c = drop (length w - length c) w" by simp
    have "length w - length c < length w" using gt sc by (cases c) auto
    then have "hd (drop (length w - length c) w) = w ! (length w - length c)" by (rule hd_drop_conv_nth)
    then have "hd c = w ! (length w - length c)" using c by metis
    moreover have "cont_byte (w ! (length w - length c))"
      using sw gt sc by (intro list_all_tl_nth [where P = cont_byte]) auto
    ultimately show ?thesis using sc by simp
  qed
qed

lemma py_ws_cp: "list_all is_cp py_ws"
  by code_simp

lemma py_ws_is_cp: "w \<in> set py_ws \<Longrightarrow> is_cp w"
  using py_ws_cp by (simp add: list_all_iff)

text \<open>
  The search of \<open>strip_seqs\<close> at the start of a string of code points finds
  the first code point, if it is whitespace, and nothing otherwise.
\<close>

lemma find_ws_cp:
  assumes "is_cp c" and "ws \<subseteq> set py_ws" and "ws = set wl"
  shows "find (\<lambda>w. w \<noteq> [] \<and> take (length w) (c @ r) = w) wl = (if c \<in> ws then Some c else None)"
proof -
  let ?P = "\<lambda>w. w \<noteq> [] \<and> take (length w) (c @ r) = w"
  have uniq: "w = c" if "w \<in> ws" and "?P w" for w
    using cp_prefix [OF py_ws_is_cp assms(1)] that assms(2) by blast
  have pc: "?P c" using is_cp_shape [OF assms(1)] by simp
  show ?thesis
  proof (cases "find ?P wl")
    case None
    then show ?thesis using pc assms(3) by (auto simp: find_None_iff)
  next
    case (Some w)
    then have "w \<in> ws" and "?P w" using assms(3) by (auto dest: find_SomeD)
    then show ?thesis using Some uniq by auto
  qed
qed

lemma lstrip_cps:
  "list_all is_cp cs \<Longrightarrow> strip_seqs py_ws (concat cs) = concat (dropWhile (\<lambda>c. c \<in> set py_ws) cs)"
proof (induction cs)
  case Nil
  have "find (\<lambda>w. w \<noteq> [] \<and> take (length w) [] = w) py_ws = None" by (simp add: find_None_iff)
  then show ?case by (simp add: strip_seqs.simps [of py_ws "[]"])
next
  case (Cons c cs)
  have f: "find (\<lambda>w. w \<noteq> [] \<and> take (length w) (c @ concat cs) = w) py_ws =
      (if c \<in> set py_ws then Some c else None)"
    using Cons.prems by (intro find_ws_cp) simp_all
  show ?case
    using f Cons by (simp add: strip_seqs.simps [of py_ws "c @ concat cs"])
qed

text \<open>At the end of a string of code points, on the reversed encoding.\<close>

lemma find_ws_cp_rev:
  assumes "is_cp c" and "list_all is_cp xs"
  shows "find (\<lambda>v. v \<noteq> [] \<and> take (length v) (rev c @ rev (concat xs)) = v) (map rev py_ws) =
     (if c \<in> set py_ws then Some (rev c) else None)"
proof -
  let ?P = "\<lambda>v. v \<noteq> [] \<and> take (length v) (rev c @ rev (concat xs)) = v"
  have uniq: "w = c" if "w \<in> set py_ws" and "?P (rev w)" for w
  proof -
    have "take (length w) (rev (concat xs @ c)) = rev w" using that(2) by simp
    then have "rev (drop (length (concat xs @ c) - length w) (concat xs @ c)) = rev w"
      by (simp only: take_rev)
    then have "drop (length (concat xs @ c) - length w) (concat xs @ c) = w" by (simp only: rev_is_rev_conv)
    then show "w = c" by (rule cp_suffix [OF py_ws_is_cp [OF that(1)] assms(1)])
  qed
  have pc: "?P (rev c)" using is_cp_shape [OF assms(1)] by simp
  show ?thesis
  proof (cases "find ?P (map rev py_ws)")
    case None
    then show ?thesis using pc by (auto simp: find_None_iff)
  next
    case (Some v)
    have pv: "?P v" and "v \<in> set (map rev py_ws)" using find_SomeD [OF Some] by blast+
    then obtain w where w: "w \<in> set py_ws" and vw: "v = rev w" by auto
    have "?P (rev w)" using pv unfolding vw .
    then have "w = c" using w by (rule uniq [rotated])
    then show ?thesis using Some w vw by simp
  qed
qed

lemma rstrip_cps:
  "list_all is_cp cs \<Longrightarrow>
   strip_seqs (map rev py_ws) (rev (concat cs)) = rev (concat (rev (dropWhile (\<lambda>c. c \<in> set py_ws) (rev cs))))"
proof (induction cs rule: rev_induct)
  case Nil
  have "find (\<lambda>w. w \<noteq> [] \<and> take (length w) [] = w) (map rev py_ws) = None"
    by (simp add: find_None_iff)
  then show ?case by (simp add: strip_seqs.simps [of "map rev py_ws" "[]"])
next
  case (snoc c xs)
  have f: "find (\<lambda>v. v \<noteq> [] \<and> take (length v) (rev c @ rev (concat xs)) = v) (map rev py_ws) =
      (if c \<in> set py_ws then Some (rev c) else None)"
    using snoc.prems by (intro find_ws_cp_rev) simp_all
  show ?case
    using f snoc by (simp add: strip_seqs.simps [of "map rev py_ws" "rev c @ rev (concat xs)"])
qed


lemma utf8_valid_first:
  "utf8_valid (c # cs) \<longleftrightarrow> (\<exists>n. utf8_first (c # cs) = Some n \<and> utf8_valid (drop n (c # cs)))"
  by (auto simp: utf8_first_def lead_len_def second_range_def cont_byte_def Let_def
      split: list.splits if_splits)

lemma utf8_valid_chunks: "utf8_valid s \<longleftrightarrow> utf8_chunks s \<noteq> None"
proof (induction s rule: utf8_chunks.induct)
  case (1 s)
  show ?case
  proof (cases s)
    case Nil
    then show ?thesis by simp
  next
    case (Cons c cs)
    have v: "utf8_valid s = (\<exists>n. utf8_first s = Some n \<and> utf8_valid (drop n s))"
      unfolding Cons by (rule utf8_valid_first)
    have ne: "s \<noteq> []" using Cons by simp
    then have ch: "utf8_chunks s =
        (case utf8_first s of None \<Rightarrow> None | Some n \<Rightarrow> map_option (Cons (take n s)) (utf8_chunks (drop n s)))"
      by (simp add: utf8_chunks.simps [of s])
    show ?thesis using v ch "1.IH" [OF ne] by (auto split: option.splits)
  qed
qed

subsection \<open>Strip on code points\<close>

text \<open>
  On every chunk that \<open>data.decode()\<close> accepts, \<open>py_strip\<close>, which works
  on the encoding, is CPython's \<open>str.strip()\<close>: the decoded code points with
  the leading and then the trailing whitespace code points dropped.
\<close>

lemma py_strip_code_points:
  assumes "utf8_valid s"
  shows "\<exists>cs. utf8_chunks s = Some cs \<and> concat cs = s \<and> py_strip s = concat (cp_strip cs)"
proof -
  obtain cs where c: "utf8_chunks s = Some cs" using assms utf8_valid_chunks by blast
  then have s: "s = concat cs" and cp: "list_all is_cp cs"
    using utf8_chunks_concat [OF c] utf8_chunks_cp [OF c] by simp_all
  let ?ds = "dropWhile (\<lambda>c. c \<in> set py_ws) cs"
  have l: "py_lstrip s = concat ?ds" using lstrip_cps [OF cp] s by (simp add: py_lstrip_def)
  have "list_all is_cp ?ds" using cp by (auto simp: list_all_iff dest: set_dropWhileD)
  then have "py_rstrip (concat ?ds) = concat (rev (dropWhile (\<lambda>c. c \<in> set py_ws) (rev ?ds)))"
    using rstrip_cps by (simp add: py_rstrip_def)
  then show ?thesis using l c s by (simp add: py_strip_def cp_strip_def)
qed

end
