(* ===== verification/Quoting.thy ===== *)
theory Quoting
  imports Registry
begin

text \<open>
  What the server does with double quotes in a chat message
  (\<open>ClientProtocol.send_message\<close>, \<open>server.py\<close> lines 74--81, through
  \<open>HistoryStorage.save_message\<close>, lines 24--26). The message goes into the
  \<open>INSERT\<close> statement unescaped, so SQLite reads its quotes as SQL: a doubled
  quote is stored as one, and a quote followed by a comma makes the statement
  fail, which closes the sender's connection. The one-step lemmas here are
  shared by the properties of the root theory.
\<close>

subsection \<open>One chat message, step by step\<close>

text \<open>
  A logged-in protocol sends a message whose quotes are doubled: the step saves
  the escaped value and broadcasts the text as sent.
\<close>

lemma chat_step_escaped:
  assumes "login_of s a = Some l" and "tstate_of s a = Some Open"
    and "utf8_valid (dq_double m)" and "m \<noteq> []"
    and "dq \<notin> set l" "CHR 0x00 \<notin> set l" "CHR 0x00 \<notin> set m"
  shows "server_step s (Receive a (dq_double m)) =
           Some (broadcast (clients s) (Some l) (chat_line l (dq_double m))
                   (s\<lparr>history := insert_rows [(l, m)] (history s)\<rparr>))"
proof -
  have "py_decode (dq_double m) = Inr (dq_double m)" using assms(3) by (simp add: py_decode_def)
  then have "data_received a (dq_double m) s = send_message a (dq_double m) s"
    using assms(1) by (rule data_received_chat)
  moreover have "save_message l (dq_double m) (history s) = Ok (insert_rows [(l, m)] (history s))"
    using save_message_escaped [OF assms(6,7), of "history s"] assms(5) by simp
  moreover have "dq_double m \<noteq> []" using assms(4) by (cases m) auto
  ultimately show ?thesis using assms(1,2) by (simp add: send_message_def)
qed

text \<open>
  One chat message of a logged-in protocol whose text the fragment saves as one
  row: the step saves it and broadcasts its line.
\<close>

lemma chat_step:
  assumes "login_of s a = Some l" and "tstate_of s a = Some Open" and "utf8_valid m" and "m \<noteq> []"
    and "dq \<notin> set l" "dq \<notin> set m" "CHR 0x00 \<notin> set l" "CHR 0x00 \<notin> set m"
  shows "server_step s (Receive a m) =
           Some (broadcast (clients s) (Some l) (chat_line l m) (s\<lparr>history := insert_rows [(l, m)] (history s)\<rparr>))"
  using chat_step_escaped [of s a l m] assms by simp

text \<open>
  A chat message that \<open>save_message\<close> fails on: the exception escapes
  \<open>data_received\<close> and the loop force-closes the sender.
\<close>

lemma save_raises_step:
  assumes "login_of s c = Some l" and "tstate_of s c = Some Open" and "utf8_valid d" and "d \<noteq> []"
    and "save_message l d (history s) = Exc SqliteError (history s)"
  shows "server_step s (Receive c d) = Some (fatal_error c SqliteError s)"
proof -
  have "send_message c d s = Exc SqliteError s" using assms(1,5) by (simp add: send_message_def)
  then have "data_received c d s = Exc SqliteError s"
    using assms(1,3) by (simp add: data_received_chat py_decode_def)
  then show ?thesis using assms(2,4) by simp
qed

subsection \<open>Properties\<close>

text \<open>
  C27: the log does not keep what was said. A logged-in client sends a text
  whose quotes are doubled (\<open>say ""hi""\<close>): every other open client gets the
  line as sent, but the log stores the text with each pair of quotes read as
  one (\<open>say "hi"\<close>), and that is what every later replay shows. The replay
  line is the live line exactly when the message holds no quote.
\<close>

theorem escaped_quote_logged_unescaped:
  assumes "reach s" and "login_of s a = Some l" and "tstate_of s a = Some Open"
    and "dq \<notin> set l" "CHR 0x00 \<notin> set l"
    and "m \<noteq> []" "CHR 0x00 \<notin> set m" "utf8_valid (dq_double m)"
    and "b \<in> set (clients s)" "login_of s b \<noteq> Some l" "tstate_of s b = Some Open"
  shows "\<exists>t. server_step s (Receive a (dq_double m)) = Some t
     \<and> written_to t b = written_to s b @ [chat_line l (dq_double m)]
     \<and> last (take_history 10 (history t)) = (l, m)
     \<and> (history_line (l, m) = [CHR 0x0A, CHR 0x0D] @ chat_line l (dq_double m) \<longleftrightarrow> dq \<notin> set m)"
proof -
  let ?t = "broadcast (clients s) (Some l) (chat_line l (dq_double m))
              (s\<lparr>history := insert_rows [(l, m)] (history s)\<rparr>)"
  have step: "server_step s (Receive a (dq_double m)) = Some ?t"
    by (rule chat_step_escaped [OF assms(2,3,8,6,4,5,7)])
  have "distinct (clients s)" using reach_registry_inv [OF assms(1)] by (simp add: registry_inv_def)
  then have w: "written_to ?t b = written_to s b @ [chat_line l (dq_double m)]"
    using assms(9-11) by (simp add: written_to_broadcast)
  have h: "last (take_history 10 (history ?t)) = (l, m)"
    using last_take_history_insert [OF reach_history_inv [OF assms(1)], of 10] by simp
  have "history_line (l, m) = [CHR 0x0A, CHR 0x0D] @ chat_line l (dq_double m) \<longleftrightarrow> dq \<notin> set m"
    using dq_double_eq_iff [of m] by (auto simp: history_line_def chat_line_def)
  with step w h show ?thesis by blast
qed

theorem escaped_quote_logged_unescaped_witness:
  "\<exists>t u. run server_init [Accept 0, Receive 0 ''login:alice'', Accept 1, Receive 1 ''login:bob''] = Some t
     \<and> server_step t (Receive 0 (''say '' @ [dq, dq] @ ''hi'' @ [dq, dq])) = Some u
     \<and> written_to u 1 = written_to t 1 @ [''<alice>: say '' @ [dq, dq] @ ''hi'' @ [dq, dq]]
     \<and> last (take_history 10 (history u)) = (''alice'', ''say '' @ dq # ''hi'' @ [dq])"
proof -
  have "map_option (\<lambda>t. (login_of t 0, tstate_of t 0, clients t, login_of t 1, tstate_of t 1))
          (run server_init [Accept 0, Receive 0 ''login:alice'', Accept 1, Receive 1 ''login:bob''])
        = Some (Some ''alice'', Some Open, [0, 1], Some ''bob'', Some Open)"
    by code_simp
  then obtain t where r: "run server_init [Accept 0, Receive 0 ''login:alice'', Accept 1, Receive 1 ''login:bob''] = Some t"
    and h: "login_of t 0 = Some ''alice''" "tstate_of t 0 = Some Open" "clients t = [0, 1]"
      "login_of t 1 = Some ''bob''" "tstate_of t 1 = Some Open"
    by auto
  have "reach t" using reach.init r by (rule run_reach)
  moreover have "dq_double (''say '' @ dq # ''hi'' @ [dq]) = ''say '' @ [dq, dq] @ ''hi'' @ [dq, dq]"
    "utf8_valid (''say '' @ [dq, dq] @ ''hi'' @ [dq, dq])"
    "chat_line ''alice'' (''say '' @ [dq, dq] @ ''hi'' @ [dq, dq]) = ''<alice>: say '' @ [dq, dq] @ ''hi'' @ [dq, dq]"
    by code_simp+
  ultimately show ?thesis
    using r h escaped_quote_logged_unescaped [of t 0 "''alice''" "''say '' @ dq # ''hi'' @ [dq]" 1]
    by (auto simp: dq_def)
qed

text \<open>
  C29: a quote followed by a comma disconnects the sender. A logged-in client
  sends a message whose first lone quote is followed by a comma (\<open>size 5",
  10" wide\<close>): the row gets a third value, SQLite refuses the statement,
  \<open>execute\<close> raises, and the loop force-closes the sender's connection. Nothing
  is saved or written; the error is reported.
\<close>

theorem quote_comma_disconnects:
  assumes "login_of s c = Some l" and "tstate_of s c = Some Open" and "dq \<notin> set l"
    and "CHR 0x00 \<notin> set (l @ v @ w)" and "utf8_valid (dq_double v @ dq # CHR '','' # w)"
  shows "\<exists>t. server_step s (Receive c (dq_double v @ dq # CHR '','' # w)) = Some t
     \<and> history t = history s \<and> written_to t = written_to s \<and> tstate_of t c = Some Closing
     \<and> errors t = errors s @ [(c, SqliteError)]"
proof -
  have sv: "save_message l (dq_double v @ dq # CHR '','' # w) (history s) = Exc SqliteError (history s)"
    using save_message_comma_raises [OF assms(4), of "history s"] assms(3) by simp
  have "server_step s (Receive c (dq_double v @ dq # CHR '','' # w)) = Some (fatal_error c SqliteError s)"
    by (rule save_raises_step [OF assms(1,2,5) _ sv]) simp
  then show ?thesis using fatal_error_effects [OF assms(2), of SqliteError] by blast
qed

theorem quote_comma_disconnects_witness:
  "\<exists>t. server_step alice_and_guest (Receive 0 (''size 5'' @ dq # CHR '','' # '' 10'' @ dq # '' wide'')) = Some t
     \<and> tstate_of t 0 = Some Closing \<and> written_to t 1 = [] \<and> history t = history_init
     \<and> errors t = [(0, SqliteError)]"
proof -
  have h: "login_of alice_and_guest 0 = Some ''alice''" "tstate_of alice_and_guest 0 = Some Open"
    "dq \<notin> set ''alice''" "CHR 0x00 \<notin> set (''alice'' @ ''size 5'' @ '' 10'' @ dq # '' wide'')"
    "utf8_valid (dq_double ''size 5'' @ dq # CHR '','' # '' 10'' @ dq # '' wide'')"
    by code_simp+
  have w: "written_to alice_and_guest 1 = []" "errors alice_and_guest = []"
    "history alice_and_guest = history_init" "dq_double ''size 5'' = ''size 5''"
    by code_simp+
  obtain t where r: "server_step alice_and_guest (Receive 0 (''size 5'' @ dq # CHR '','' # '' 10'' @ dq # '' wide'')) = Some t"
    and "history t = history alice_and_guest" and "written_to t = written_to alice_and_guest"
    and "tstate_of t 0 = Some Closing" and "errors t = errors alice_and_guest @ [(0, SqliteError)]"
    using quote_comma_disconnects [OF h] unfolding w(4) by blast
  with w(1-3) show ?thesis by auto
qed

end
