(* ===== verification/Transport.thy ===== *)
theory Transport
  imports Protocol "HOL-Library.Sublist"
begin

text \<open>
  The asyncio socket transport behind \<open>self.transport\<close> (\<open>server.py\<close> lines
  42, 69, 80--81), as CPython's \<open>selector_events._SelectorSocketTransport\<close>
  implements it: \<open>write\<close> sends at once what the socket takes and buffers the
  rest; \<open>close()\<close> schedules \<open>connection_lost\<close> only when the buffer is empty,
  and otherwise the writer callback \<open>_write_ready\<close> calls it once the buffer
  has drained; \<open>_force_close\<close> (after an exception) drops the buffer. How many
  bytes a \<open>sock.send\<close> takes (all of them, or \<open>n\<close>), or that it fails, is the
  kernel's choice.
\<close>

datatype sock_send = Accepts_all | Accepts nat | Send_fails

record sock_transport =
  st_closing :: bool
  st_buffer :: pystr
  st_conn_lost :: nat
  st_sent :: pystr
  st_lost_called :: bool

definition sock_init :: sock_transport where
  "sock_init = \<lparr>st_closing = False, st_buffer = [], st_conn_lost = 0, st_sent = [], st_lost_called = False\<rparr>"

text \<open>\<open>_force_close(exc)\<close>, also the end of \<open>_fatal_error\<close>.\<close>

definition sock_force_close :: "sock_transport \<Rightarrow> sock_transport" where
  "sock_force_close t =
     (if 0 < st_conn_lost t then t
      else t\<lparr>st_buffer := [], st_closing := True, st_conn_lost := Suc (st_conn_lost t)\<rparr>)"

text \<open>\<open>write(data)\<close>: a send that fails is a fatal error of the transport.\<close>

definition sock_write :: "sock_send \<Rightarrow> pystr \<Rightarrow> sock_transport \<Rightarrow> sock_transport" where
  "sock_write r data t =
     (if data = [] then t
      else if 0 < st_conn_lost t then t\<lparr>st_conn_lost := Suc (st_conn_lost t)\<rparr>
      else if st_buffer t = [] then
        (case r of
           Accepts_all \<Rightarrow> t\<lparr>st_sent := st_sent t @ data\<rparr>
         | Accepts n \<Rightarrow> t\<lparr>st_sent := st_sent t @ take n data, st_buffer := drop n data\<rparr>
         | Send_fails \<Rightarrow> sock_force_close t)
      else t\<lparr>st_buffer := st_buffer t @ data\<rparr>)"

text \<open>\<open>close()\<close> (of \<open>_SelectorTransport\<close>).\<close>

definition sock_close :: "sock_transport \<Rightarrow> sock_transport" where
  "sock_close t =
     (if st_closing t then t
      else if st_buffer t = [] then t\<lparr>st_closing := True, st_conn_lost := Suc (st_conn_lost t)\<rparr>
      else t\<lparr>st_closing := True\<rparr>)"

text \<open>
  \<open>_write_ready()\<close>, run by the loop while the buffer is not empty: it sends
  what the socket takes, and once the buffer is empty on a closing transport
  it calls \<open>_call_connection_lost\<close> itself.
\<close>

definition sock_write_ready :: "sock_send \<Rightarrow> sock_transport \<Rightarrow> sock_transport" where
  "sock_write_ready r t =
     (if 0 < st_conn_lost t then t
      else case r of
        Accepts_all \<Rightarrow> t\<lparr>st_sent := st_sent t @ st_buffer t, st_buffer := [], st_lost_called := st_closing t\<rparr>
      | Accepts n \<Rightarrow>
          (let t' = t\<lparr>st_sent := st_sent t @ take n (st_buffer t), st_buffer := drop n (st_buffer t)\<rparr> in
           if st_buffer t' = [] \<and> st_closing t then t'\<lparr>st_lost_called := True\<rparr> else t')
      | Send_fails \<Rightarrow> sock_force_close (t\<lparr>st_buffer := []\<rparr>))"

text \<open>
  What can happen to a transport: the protocol calls \<open>write\<close>, \<open>close\<close>, or
  raises (\<open>_fatal_error\<close>); the loop runs the writer callback while data is
  buffered, or the scheduled \<open>_call_connection_lost\<close>. After
  \<open>connection_lost\<close> has run the transport holds no socket and nothing more
  happens to it.
\<close>

datatype sock_event = Write sock_send pystr | Close | Force_close | Write_ready sock_send | Call_lost

fun sock_step :: "sock_transport \<Rightarrow> sock_event \<Rightarrow> sock_transport option" where
  "sock_step t e =
     (if st_lost_called t then None
      else case e of
        Write r d \<Rightarrow> Some (sock_write r d t)
      | Close \<Rightarrow> Some (sock_close t)
      | Force_close \<Rightarrow> Some (sock_force_close t)
      | Write_ready r \<Rightarrow> (if st_buffer t \<noteq> [] then Some (sock_write_ready r t) else None)
      | Call_lost \<Rightarrow> (if 0 < st_conn_lost t then Some (t\<lparr>st_lost_called := True\<rparr>) else None))"

fun sock_run :: "sock_event list \<Rightarrow> sock_transport \<Rightarrow> sock_transport option" where
  "sock_run [] t = Some t"
| "sock_run (e # es) t = (case sock_step t e of None \<Rightarrow> None | Some u \<Rightarrow> sock_run es u)"

text \<open>The transport state of \<open>Protocol\<close> that a socket transport shows.\<close>

definition sock_tstate :: "sock_transport \<Rightarrow> tstate" where
  "sock_tstate t = (if st_lost_called t then Closed else if st_closing t then Closing else Open)"

text \<open>
  The invariant: data is buffered only while \<open>connection_lost\<close> is not
  scheduled, a scheduled \<open>connection_lost\<close> belongs to a closing transport, and
  it runs only with the buffer empty.
\<close>

definition sock_inv :: "sock_transport \<Rightarrow> bool" where
  "sock_inv t \<longleftrightarrow>
     (st_buffer t \<noteq> [] \<longrightarrow> st_conn_lost t = 0) \<and> (0 < st_conn_lost t \<longrightarrow> st_closing t)
     \<and> (st_lost_called t \<longrightarrow> st_buffer t = [] \<and> st_closing t)
     \<and> (st_closing t \<and> \<not> st_lost_called t \<longrightarrow> 0 < st_conn_lost t \<or> st_buffer t \<noteq> [])"

text \<open>
  The simple transport of \<open>Protocol\<close> (one entry of \<open>written\<close> per accepted
  write) and a socket transport whose buffer is empty agree.
\<close>

definition sock_rel :: "sock_transport \<Rightarrow> transport \<Rightarrow> bool" where
  "sock_rel t T \<longleftrightarrow>
     st_buffer t = [] \<and> st_sent t = concat (written T) \<and> tstate T = sock_tstate t
     \<and> (0 < st_conn_lost t \<longleftrightarrow> st_closing t) \<and> (st_lost_called t \<longrightarrow> st_closing t)"

text \<open>Events that do not break the connection: no fatal error, no failed send.\<close>

fun graceful :: "sock_event \<Rightarrow> bool" where
  "graceful (Write r d) = (r \<noteq> Send_fails)"
| "graceful Force_close = False"
| "graceful (Write_ready r) = (r \<noteq> Send_fails)"
| "graceful _ = True"

subsection \<open>Lemmas\<close>

lemma sock_inv_init: "sock_inv sock_init"
  by (simp add: sock_inv_def sock_init_def)

lemma sock_inv_force_close: "sock_inv t \<Longrightarrow> sock_inv (sock_force_close t)"
  by (auto simp: sock_inv_def sock_force_close_def)

lemma sock_inv_step: "sock_inv t \<Longrightarrow> sock_step t e = Some u \<Longrightarrow> sock_inv u"
  by (auto simp: sock_inv_def sock_write_def sock_close_def sock_write_ready_def sock_force_close_def Let_def
      split: sock_event.splits sock_send.splits if_splits)

text \<open>
  Graceful events only add to the data the transport accepted (sent, then
  buffered), in order.
\<close>

lemma graceful_step_prefix:
  assumes "sock_inv t" and "graceful e" and "sock_step t e = Some u"
  shows "prefix (st_sent t @ st_buffer t) (st_sent u @ st_buffer u)"
  using assms
  by (cases e) (auto simp: sock_inv_def sock_write_def sock_close_def sock_write_ready_def Let_def
      split: sock_send.splits if_splits)

lemma graceful_run_prefix:
  "sock_inv t \<Longrightarrow> list_all graceful es \<Longrightarrow> sock_run es t = Some u \<Longrightarrow>
   prefix (st_sent t @ st_buffer t) (st_sent u @ st_buffer u) \<and> sock_inv u"
proof (induction es arbitrary: t)
  case Nil
  then show ?case by simp
next
  case (Cons e es)
  then obtain t' where s: "sock_step t e = Some t'" and r: "sock_run es t' = Some u"
    by (auto split: option.splits)
  have "sock_inv t'" using Cons.prems(1) s by (rule sock_inv_step)
  with Cons.IH [of t'] Cons.prems(2) r have "prefix (st_sent t' @ st_buffer t') (st_sent u @ st_buffer u) \<and> sock_inv u"
    by simp
  moreover have "prefix (st_sent t @ st_buffer t) (st_sent t' @ st_buffer t')"
    using Cons.prems(1,2) s by (intro graceful_step_prefix) simp_all
  ultimately show ?case by (blast intro: prefix_order.trans)
qed

lemma sock_lost_called_ops [simp]:
  "st_lost_called (sock_write r d t) = st_lost_called t"
  "st_lost_called (sock_close t) = st_lost_called t"
  "st_lost_called (sock_force_close t) = st_lost_called t"
  by (cases r) (simp_all add: sock_write_def sock_close_def sock_force_close_def)

lemma write_close_accepts:
  assumes "sock_inv t" and "\<not> st_closing t" and "d \<noteq> []" and "r \<noteq> Send_fails"
  shows "st_sent (sock_close (sock_write r d t)) @ st_buffer (sock_close (sock_write r d t))
           = st_sent t @ st_buffer t @ d"
  using assms
  by (cases r) (auto simp: sock_inv_def sock_write_def sock_close_def)

lemma write_close_inv:
  "sock_inv t \<Longrightarrow> \<not> st_closing t \<Longrightarrow> sock_inv (sock_close (sock_write r d t))
     \<and> st_closing (sock_close (sock_write r d t)) \<and> \<not> st_lost_called (sock_close (sock_write r d t))"
  by (cases r) (auto simp: sock_inv_def sock_write_def sock_close_def sock_force_close_def)

subsection \<open>Write, then close\<close>

text \<open>
  The transport of \<open>Protocol\<close> and a socket transport that takes every write
  whole stay related under each transport operation of the program.
\<close>

lemma sock_rel_write: "sock_rel t T \<Longrightarrow> sock_rel (sock_write Accepts_all d t) (transport_write d T)"
  by (auto simp: sock_rel_def sock_tstate_def sock_write_def transport_write_def)

lemma sock_rel_close: "sock_rel t T \<Longrightarrow> sock_rel (sock_close t) (transport_close T)"
  by (auto simp: sock_rel_def sock_tstate_def sock_close_def transport_close_def)

lemma sock_rel_force_close: "sock_rel t T \<Longrightarrow> sock_rel (sock_force_close t) (transport_force_close T)"
  by (auto simp: sock_rel_def sock_tstate_def sock_force_close_def transport_force_close_def)

lemma sock_rel_lost:
  "sock_rel t T \<Longrightarrow> tstate T = Closing \<Longrightarrow>
   0 < st_conn_lost t \<and> \<not> st_lost_called t \<and> sock_rel (t\<lparr>st_lost_called := True\<rparr>) (T\<lparr>tstate := Closed\<rparr>)"
  by (auto simp: sock_rel_def sock_tstate_def split: if_splits)

lemma sock_rel_Closing:
  "sock_rel t T \<Longrightarrow> (0 < st_conn_lost t \<and> \<not> st_lost_called t) = (tstate T = Closing)"
  by (auto simp: sock_rel_def sock_tstate_def)

lemma sock_rel_inv: "sock_rel t T \<Longrightarrow> sock_inv t"
  by (auto simp: sock_rel_def sock_inv_def)

lemma sock_rel_open:
  "sock_rel t T \<Longrightarrow> tstate T = Open \<Longrightarrow> \<not> st_closing t \<and> \<not> st_lost_called t \<and> st_buffer t = []"
  by (auto simp: sock_rel_def sock_tstate_def split: if_splits)

lemma sock_rel_init: "sock_rel sock_init \<lparr>tstate = Open, written = [], calls = []\<rparr>"
  by (simp add: sock_rel_def sock_init_def sock_tstate_def)

text \<open>
  \<open>write(data)\<close> then \<open>close()\<close> on an open transport, as in the refusal branch
  of \<open>data_received\<close>: whatever the socket takes of the data, the transport
  can go on to \<open>connection_lost\<close>, and every run without a fatal error that
  reaches \<open>connection_lost\<close> has handed the kernel all the data accepted
  before, \<open>data\<close> last.
\<close>

lemma write_close_delivers:
  assumes "sock_inv t" and "\<not> st_closing t" and "r \<noteq> Send_fails"
  shows "(\<exists>es u. list_all graceful es \<and> sock_run (Write r (name_taken_line l) # Close # es) t = Some u
            \<and> st_lost_called u)
     \<and> (\<forall>es u. list_all graceful es \<longrightarrow> sock_run (Write r (name_taken_line l) # Close # es) t = Some u
            \<longrightarrow> st_lost_called u \<longrightarrow> prefix (st_sent t @ st_buffer t @ name_taken_line l) (st_sent u))"
proof -
  let ?u = "sock_close (sock_write r (name_taken_line l) t)"
  have nl: "\<not> st_lost_called t" using assms(1,2) by (simp add: sock_inv_def)
  have u: "sock_inv ?u" "st_closing ?u" "\<not> st_lost_called ?u"
    using write_close_inv [OF assms(1,2)] by simp_all
  have run: "sock_run (Write r (name_taken_line l) # Close # es) t = sock_run es ?u" for es
    using nl by simp
  have acc: "st_sent ?u @ st_buffer ?u = st_sent t @ st_buffer t @ name_taken_line l"
    using assms by (intro write_close_accepts) simp_all
  have "\<exists>es w. list_all graceful es \<and> sock_run es ?u = Some w \<and> st_lost_called w"
  proof (cases "st_buffer ?u = []")
    case True
    then have "0 < st_conn_lost ?u" using u by (auto simp: sock_inv_def)
    then show ?thesis using u(3) by (intro exI [of _ "[Call_lost]"]) simp
  next
    case False
    then have "st_conn_lost ?u = 0" using u(1) by (simp add: sock_inv_def)
    then show ?thesis using False u(2,3)
      by (intro exI [of _ "[Write_ready (Accepts (length (st_buffer ?u)))]"])
         (simp add: sock_write_ready_def Let_def)
  qed
  moreover have "prefix (st_sent t @ st_buffer t @ name_taken_line l) (st_sent w)"
    if "list_all graceful es" "sock_run es ?u = Some w" "st_lost_called w" for es w
  proof -
    have p: "prefix (st_sent ?u @ st_buffer ?u) (st_sent w @ st_buffer w)" and "sock_inv w"
      using graceful_run_prefix [OF u(1) that(1,2)] by simp_all
    then have "st_buffer w = []" using that(3) by (simp add: sock_inv_def)
    with p acc show ?thesis by simp
  qed
  ultimately show ?thesis unfolding run by blast
qed

end
