(* ===== verification/Buffered_Server.thy ===== *)
theory Buffered_Server
  imports Event_Loop Transport
begin

text \<open>
  The server over asyncio's buffered socket transports. Each step of the
  server model (\<open>Event_Loop.server_step\<close>) makes calls on transports, which
  \<open>Protocol\<close> logs in each transport's \<open>calls\<close>; here each connection also has
  a socket transport of \<open>Transport\<close>, and a step replays the calls it made on
  it, with the kernel's choice for every send. The loop also runs a
  transport's writer callback (\<open>Drain\<close>), which may end in
  \<open>connection_lost\<close> or, when a send fails, in \<open>_force_close\<close>; the scheduled
  \<open>connection_lost\<close> (\<open>Lost\<close>) runs only once asyncio scheduled it. When the
  socket takes every write whole this server has exactly the runs of the
  server model (\<open>buffered_server_refines\<close>); on a congested socket a refused
  login still gets its whole notice (C32).
\<close>

subsection \<open>The composed server\<close>

text \<open>A logged call applied to the transport of \<open>Protocol\<close>.\<close>

fun tapply :: "tcall \<Rightarrow> transport \<Rightarrow> transport" where
  "tapply (TWrite d) T = transport_write d T"
| "tapply TClose T = transport_close T"
| "tapply TForce_close T = transport_force_close T"

text \<open>
  The same calls on a socket transport; \<open>k n\<close> is what the socket does with the
  \<open>n\<close>-th write of the step.
\<close>

fun replay :: "tcall list \<Rightarrow> (nat \<Rightarrow> sock_send) \<Rightarrow> nat \<Rightarrow> sock_transport \<Rightarrow> sock_transport" where
  "replay [] k n t = t"
| "replay (TWrite d # cs) k n t = replay cs k (Suc n) (sock_write (k n) d t)"
| "replay (TClose # cs) k n t = replay cs k n (sock_close t)"
| "replay (TForce_close # cs) k n t = replay cs k n (sock_force_close t)"

record bserver =
  srv :: server
  socks :: "conn \<rightharpoonup> sock_transport"

definition bserver_init :: bserver where
  "bserver_init = \<lparr>srv = server_init, socks = Map.empty\<rparr>"

text \<open>
  The socket transports after a step from \<open>s\<close> to \<open>s'\<close>: each replays the calls
  the step appended to its log; a new connection starts with a new transport.
\<close>

definition bsocks ::
  "server \<Rightarrow> server \<Rightarrow> (conn \<rightharpoonup> sock_transport) \<Rightarrow> (conn \<Rightarrow> nat \<Rightarrow> sock_send) \<Rightarrow> conn \<rightharpoonup> sock_transport" where
  "bsocks s s' m k c =
     (case protocols s' c of
        None \<Rightarrow> None
      | Some p \<Rightarrow>
          Some (replay (drop (length (calls_of s c)) (calls (transport p))) (k c) 0
                  (case m c of Some t \<Rightarrow> t | None \<Rightarrow> sock_init)))"

datatype bevent = Step event "conn \<Rightarrow> nat \<Rightarrow> sock_send" | Drain conn sock_send

text \<open>
  A step of the server model. The scheduled \<open>connection_lost\<close> runs only once
  asyncio has scheduled it (\<open>_conn_lost\<close> set), and marks the socket
  transport done.
\<close>

definition bstep_event :: "bserver \<Rightarrow> event \<Rightarrow> (conn \<Rightarrow> nat \<Rightarrow> sock_send) \<Rightarrow> bserver option" where
  "bstep_event b e k =
     (case e of
        Lost c \<Rightarrow>
          (case socks b c of
             Some t \<Rightarrow>
               (if 0 < st_conn_lost t \<and> \<not> st_lost_called t then
                  map_option (\<lambda>s'. \<lparr>srv = s', socks = (socks b)(c \<mapsto> t\<lparr>st_lost_called := True\<rparr>)\<rparr>)
                    (server_step (srv b) e)
                else None)
           | None \<Rightarrow> None)
      | _ \<Rightarrow> map_option (\<lambda>s'. \<lparr>srv = s', socks = bsocks (srv b) s' (socks b) k\<rparr>) (server_step (srv b) e))"

text \<open>
  The writer callback of a transport with buffered data: once the buffer of a
  closing transport drains it runs \<open>connection_lost\<close> itself; a failed send
  force-closes the transport (an \<open>OSError\<close>, which asyncio does not report to
  the exception handler).
\<close>

definition bstep_drain :: "bserver \<Rightarrow> conn \<Rightarrow> sock_send \<Rightarrow> bserver option" where
  "bstep_drain b c r =
     (case socks b c of
        None \<Rightarrow> None
      | Some t \<Rightarrow>
          (if st_buffer t = [] \<or> st_lost_called t then None
           else
             (let t' = sock_write_ready r t in
              if st_lost_called t' then
                map_option (\<lambda>s'. \<lparr>srv = s', socks = (socks b)(c \<mapsto> t')\<rparr>) (call_connection_lost c (srv b))
              else if st_conn_lost t = 0 \<and> 0 < st_conn_lost t' then
                Some \<lparr>srv = force_close_transport c (srv b), socks = (socks b)(c \<mapsto> t')\<rparr>
              else Some (b\<lparr>socks := (socks b)(c \<mapsto> t')\<rparr>))))"

fun bstep :: "bserver \<Rightarrow> bevent \<Rightarrow> bserver option" where
  "bstep b (Step e k) = bstep_event b e k"
| "bstep b (Drain c r) = bstep_drain b c r"

fun brun :: "bserver \<Rightarrow> bevent list \<Rightarrow> bserver option" where
  "brun b [] = Some b"
| "brun b (e # es) = (case bstep b e of None \<Rightarrow> None | Some b' \<Rightarrow> brun b' es)"

text \<open>
  Every connection has a socket transport related to its transport in the
  server model (an empty buffer, the same bytes sent, the same state).
\<close>

definition brel :: "bserver \<Rightarrow> bool" where
  "brel b \<longleftrightarrow>
     (\<forall>c. case protocols (srv b) c of
            None \<Rightarrow> socks b c = None
          | Some p \<Rightarrow> (case socks b c of Some t \<Rightarrow> sock_rel t (transport p) | None \<Rightarrow> False))"

text \<open>
  A step changes a transport of the server model only by the calls it logs:
  \<open>tframes s s'\<close> says the same protocols exist and each transport of \<open>s'\<close> is
  the one of \<open>s\<close> after some calls.
\<close>

definition tframes :: "server \<Rightarrow> server \<Rightarrow> bool" where
  "tframes s s' \<longleftrightarrow>
     dom (protocols s') = dom (protocols s)
     \<and> (\<forall>c p p'. protocols s c = Some p \<longrightarrow> protocols s' c = Some p' \<longrightarrow>
          (\<exists>cs. transport p' = fold tapply cs (transport p)))"

subsection \<open>Calls and replays\<close>

lemma calls_tapply [simp]: "calls (tapply x T) = calls T @ [x]"
  by (cases x) (simp_all add: transport_write_def transport_close_def transport_force_close_def)

lemma calls_fold_tapply: "calls (fold tapply cs T) = calls T @ cs"
  by (induction cs arbitrary: T) simp_all

lemma sock_rel_replay:
  "sock_rel t T \<Longrightarrow> sock_rel (replay cs (\<lambda>n. Accepts_all) n t) (fold tapply cs T)"
proof (induction cs arbitrary: n t T)
  case Nil
  then show ?case by simp
next
  case (Cons x cs)
  then show ?case
    by (cases x) (simp_all add: sock_rel_write sock_rel_close sock_rel_force_close)
qed

subsection \<open>Each handler changes transports only by its calls\<close>

lemma fold_tapply_Nil [simp, intro]: "\<exists>cs. T = fold tapply cs T"
  by (rule exI [of _ "[]"]) simp

lemma tframes_refl [simp]: "tframes s s"
  by (simp add: tframes_def)

lemma tframes_trans: "tframes s t \<Longrightarrow> tframes t u \<Longrightarrow> tframes s u"
  unfolding tframes_def
proof (intro conjI allI impI)
  fix c p p'
  assume st: "dom (protocols t) = dom (protocols s) \<and> (\<forall>c p p'. protocols s c = Some p \<longrightarrow> protocols t c = Some p' \<longrightarrow> (\<exists>cs. transport p' = fold tapply cs (transport p)))"
    and tu: "dom (protocols u) = dom (protocols t) \<and> (\<forall>c p p'. protocols t c = Some p \<longrightarrow> protocols u c = Some p' \<longrightarrow> (\<exists>cs. transport p' = fold tapply cs (transport p)))"
    and p: "protocols s c = Some p" and p': "protocols u c = Some p'"
  then obtain q where q: "protocols t c = Some q" by blast
  then obtain cs1 cs2 where "transport q = fold tapply cs1 (transport p)" "transport p' = fold tapply cs2 (transport q)"
    using st tu p p' by blast
  then show "\<exists>cs. transport p' = fold tapply cs (transport p)" by (intro exI [of _ "cs1 @ cs2"]) simp
qed (auto)

lemma tframes_update_protocol:
  "(\<And>p. \<exists>cs. transport (f p) = fold tapply cs (transport p)) \<Longrightarrow> tframes s (update_protocol c f s)"
  by (auto simp: tframes_def update_protocol_def split: if_splits)

lemma tframes_write_to: "tframes s (write_to c d s)"
  unfolding write_to_def
  by (rule tframes_update_protocol, rule exI [of _ "[TWrite d]"]) simp

lemma tframes_close_transport: "tframes s (close_transport c s)"
  unfolding close_transport_def
  by (rule tframes_update_protocol, rule exI [of _ "[TClose]"]) simp

lemma tframes_force_close_transport: "tframes s (force_close_transport c s)"
  unfolding force_close_transport_def
  by (rule tframes_update_protocol, rule exI [of _ "[TForce_close]"]) simp

lemma tframes_fields [simp]:
  "tframes s (s\<lparr>history := h\<rparr>)" "tframes s (s\<lparr>clients := cl\<rparr>)" "tframes s (s\<lparr>errors := er\<rparr>)"
  by (simp_all add: tframes_def)

lemma tframes_set_login: "tframes s (update_protocol c (\<lambda>p. p\<lparr>login := Some l\<rparr>) s)"
  by (rule tframes_update_protocol) simp

lemma tframes_fold_write_to: "tframes s (fold (\<lambda>e. write_to c (f e)) es s)"
  by (induction es arbitrary: s) (auto intro: tframes_trans tframes_write_to)

lemma tframes_send_history: "tframes s (send_history c n s)"
  by (simp add: send_history_def tframes_fold_write_to)

lemma tframes_broadcast: "tframes s (broadcast xs sender d s)"
  by (induction xs arbitrary: s) (auto intro: tframes_trans tframes_write_to)

lemma tframes_send_message:
  assumes "send_message c m s = Ok t \<or> send_message c m s = Exc e t"
  shows "tframes s t"
proof (cases "login_of s c")
  case None
  then show ?thesis using assms by (simp add: send_message_def)
next
  case (Some l)
  have "tframes s (broadcast (clients s) (Some l) (chat_line l m) (s\<lparr>history := h\<rparr>))" for h
    by (rule tframes_trans [OF _ tframes_broadcast]) simp
  then show ?thesis using assms Some
    by (auto simp: send_message_def save_message_def split: sql_outcome.splits)
qed

lemma tframes_data_received:
  assumes "data_received c d s = Ok t \<or> data_received c d s = Exc e t"
  shows "tframes s t"
  using assms
proof (cases rule: data_received_cases)
  case (chat l m)
  from chat(2) show ?thesis by (rule tframes_send_message)
next
  case (login l)
  have "tframes s (write_to c (hello_line l) (update_protocol c (\<lambda>p. p\<lparr>login := Some l\<rparr>) s))"
    by (rule tframes_trans [OF tframes_set_login tframes_write_to])
  then show ?thesis unfolding login(3) by (rule tframes_trans [OF _ tframes_send_history])
next
  case (taken l)
  have "tframes s ((write_to c (name_taken_line l) s)\<lparr>clients := remove1 c (clients s)\<rparr>)"
    by (rule tframes_trans [OF tframes_write_to [of s c "name_taken_line l"]]) simp
  then show ?thesis unfolding taken(4) by (rule tframes_trans [OF _ tframes_close_transport])
next
  case (taken_raises l)
  then show ?thesis by (simp add: tframes_write_to)
qed simp_all

lemma tframes_fatal_error: "tframes s (fatal_error c e s)"
  unfolding fatal_error_def report_def by (rule tframes_trans [OF _ tframes_force_close_transport]) simp

lemma tframes_connection_lost:
  "connection_lost c s = Ok t \<or> connection_lost c s = Exc e t \<Longrightarrow> tframes s t"
  by (auto simp: connection_lost_def split: sum.splits)

lemma tframes_receive:
  "server_step s (Receive c d) = Some t \<Longrightarrow> tframes s t"
proof -
  assume st: "server_step s (Receive c d) = Some t"
  show ?thesis
  proof (cases "data_received c d s")
    case (Ok s')
    then show ?thesis using st tframes_data_received [of c d s s'] by (simp split: if_splits)
  next
    case (Exc e s')
    then have "tframes s s'" using tframes_data_received [of c d s s' e] by simp
    then show ?thesis using st Exc by (auto split: if_splits intro: tframes_trans [OF _ tframes_fatal_error])
  next
    case Outside_model
    then show ?thesis using st by (simp split: if_splits)
  qed
qed

lemma tframes_peer_closed: "server_step s (Peer_closed c) = Some t \<Longrightarrow> tframes s t"
  by (auto split: if_splits intro: tframes_close_transport)

subsection \<open>The relation is kept\<close>

lemma brel_SomeD:
  "brel b \<Longrightarrow> protocols (srv b) c = Some p \<Longrightarrow> \<exists>t. socks b c = Some t \<and> sock_rel t (transport p)"
  unfolding brel_def by (drule spec [of _ c]) (auto split: option.splits)

lemma brel_NoneD: "brel b \<Longrightarrow> protocols (srv b) c = None \<Longrightarrow> socks b c = None"
  unfolding brel_def by (drule spec [of _ c]) simp

lemma brelI:
  assumes "\<And>c. protocols s c = None \<Longrightarrow> m c = None"
    and "\<And>c p. protocols s c = Some p \<Longrightarrow> \<exists>t. m c = Some t \<and> sock_rel t (transport p)"
  shows "brel \<lparr>srv = s, socks = m\<rparr>"
proof -
  have "\<forall>c. case protocols s c of None \<Rightarrow> m c = None
           | Some p \<Rightarrow> (case m c of Some t \<Rightarrow> sock_rel t (transport p) | None \<Rightarrow> False)"
  proof
    fix c
    show "case protocols s c of None \<Rightarrow> m c = None
           | Some p \<Rightarrow> (case m c of Some t \<Rightarrow> sock_rel t (transport p) | None \<Rightarrow> False)"
      using assms [of c] by (cases "protocols s c") auto
  qed
  then show ?thesis unfolding brel_def bserver.select_convs .
qed

lemma brel_init: "brel bserver_init"
  by (simp add: brel_def bserver_init_def server_init_def)

lemma brel_tframes:
  assumes "brel b" and "tframes (srv b) s'"
  shows "brel \<lparr>srv = s', socks = bsocks (srv b) s' (socks b) (\<lambda>c n. Accepts_all)\<rparr>"
proof (rule brelI)
  fix c
  assume "protocols s' c = None"
  then show "bsocks (srv b) s' (socks b) (\<lambda>c n. Accepts_all) c = None" by (simp add: bsocks_def)
next
  fix c p'
  assume Some: "protocols s' c = Some p'"
  then obtain p where p: "protocols (srv b) c = Some p"
    using assms(2) unfolding tframes_def by (metis domD domI)
  then obtain cs where cs: "transport p' = fold tapply cs (transport p)"
    using assms(2) Some unfolding tframes_def by blast
  obtain t where t: "socks b c = Some t" "sock_rel t (transport p)"
    using brel_SomeD [OF assms(1) p] by blast
  have "drop (length (calls_of (srv b) c)) (calls (transport p')) = cs"
    using p by (simp add: calls_of_def cs calls_fold_tapply)
  then show "\<exists>t. bsocks (srv b) s' (socks b) (\<lambda>c n. Accepts_all) c = Some t \<and> sock_rel t (transport p')"
    using Some t cs sock_rel_replay [OF t(2)] by (simp add: bsocks_def)
qed

lemma brel_accept:
  assumes "brel b" and "server_step (srv b) (Accept c) = Some s'"
  shows "brel \<lparr>srv = s', socks = bsocks (srv b) s' (socks b) (\<lambda>c n. Accepts_all)\<rparr>"
proof -
  have new: "protocols (srv b) c = None" and s': "s' = connection_made c (srv b)"
    using assms(2) by (simp_all split: if_splits)
  have sc: "socks b c = None" using brel_NoneD [OF assms(1) new] .
  show ?thesis
  proof (rule brelI)
    fix x
    assume "protocols s' x = None"
    then show "bsocks (srv b) s' (socks b) (\<lambda>c n. Accepts_all) x = None" by (simp add: bsocks_def)
  next
    fix x p
    assume px: "protocols s' x = Some p"
    show "\<exists>t. bsocks (srv b) s' (socks b) (\<lambda>c n. Accepts_all) x = Some t \<and> sock_rel t (transport p)"
    proof (cases "x = c")
      case True
      then show ?thesis using px sc new sock_rel_init
        by (auto simp: bsocks_def calls_of_def s' connection_made_def create_client_protocol_def)
    next
      case False
      then have "protocols (srv b) x = Some p" using px by (simp add: s' connection_made_def)
      then show ?thesis using brel_SomeD [OF assms(1)] px False
        by (fastforce simp: bsocks_def calls_of_def s' connection_made_def)
    qed
  qed
qed

lemma protocols_call_connection_lost:
  "call_connection_lost c s = Some s' \<Longrightarrow>
   protocols s' = (protocols s)(c := map_option (\<lambda>p. p\<lparr>transport := (transport p)\<lparr>tstate := Closed\<rparr>\<rparr>) (protocols s c))"
  by (auto simp: call_connection_lost_def connection_lost_def mark_closed_def update_protocol_def report_def
      split: sum.splits py_result.splits)

lemma brel_lost:
  assumes "brel b" and "socks b c = Some t" and "tstate_of (srv b) c = Some Closing"
    and "call_connection_lost c (srv b) = Some s'"
  shows "brel \<lparr>srv = s', socks = (socks b)(c \<mapsto> t\<lparr>st_lost_called := True\<rparr>)\<rparr>"
proof -
  obtain p where p: "protocols (srv b) c = Some p" "tstate (transport p) = Closing"
    using assms(3) by (auto simp: tstate_of_def)
  then have "sock_rel t (transport p)" using brel_SomeD [OF assms(1)] assms(2) by fastforce
  then have r: "sock_rel (t\<lparr>st_lost_called := True\<rparr>) ((transport p)\<lparr>tstate := Closed\<rparr>)"
    using sock_rel_lost p(2) by blast
  have ps: "protocols s' = (protocols (srv b))(c \<mapsto> p\<lparr>transport := (transport p)\<lparr>tstate := Closed\<rparr>\<rparr>)"
    using protocols_call_connection_lost [OF assms(4)] p by simp
  show ?thesis
  proof (rule brelI)
    fix x
    assume "protocols s' x = None"
    then show "((socks b)(c \<mapsto> t\<lparr>st_lost_called := True\<rparr>)) x = None"
      using brel_NoneD [OF assms(1)] ps by (auto split: if_splits)
  next
    fix x q
    assume "protocols s' x = Some q"
    then show "\<exists>u. ((socks b)(c \<mapsto> t\<lparr>st_lost_called := True\<rparr>)) x = Some u \<and> sock_rel u (transport q)"
      using brel_SomeD [OF assms(1), of x] ps r by (auto split: if_splits)
  qed
qed

lemma bstep_event_srv:
  assumes "brel b"
  shows "map_option srv (bstep_event b e k) = server_step (srv b) e"
proof (cases e)
  case (Lost c)
  show ?thesis
  proof (cases "protocols (srv b) c")
    case None
    then show ?thesis
      using brel_NoneD [OF assms None] Lost by (simp add: bstep_event_def tstate_of_def)
  next
    case (Some p)
    then obtain t where t: "socks b c = Some t" "sock_rel t (transport p)"
      using brel_SomeD [OF assms] by blast
    then show ?thesis
      using Lost Some sock_rel_Closing [OF t(2)]
      by (simp add: bstep_event_def tstate_of_def option.map_comp comp_def option.map_ident)
  qed
qed (simp_all add: bstep_event_def option.map_comp comp_def option.map_ident del: server_step.simps)

lemma bstep_event_brel:
  assumes "brel b" and "bstep_event b e (\<lambda>c n. Accepts_all) = Some b'"
  shows "brel b'"
proof (cases e)
  case (Accept c)
  then show ?thesis using assms brel_accept [OF assms(1)] by (auto simp: bstep_event_def)
next
  case (Receive c d)
  then show ?thesis
    using assms brel_tframes [OF assms(1) tframes_receive] by (auto simp: bstep_event_def)
next
  case (Peer_closed c)
  then show ?thesis
    using assms brel_tframes [OF assms(1) tframes_peer_closed] by (auto simp: bstep_event_def)
next
  case (Lost c)
  then show ?thesis
    using assms brel_lost [OF assms(1)]
    by (auto simp: bstep_event_def split: option.splits if_splits)
qed

lemma bstep_drain_none: "brel b \<Longrightarrow> bstep_drain b c r = None"
  by (cases "protocols (srv b) c")
     (auto simp: bstep_drain_def sock_rel_def dest: brel_NoneD brel_SomeD)

lemma call_connection_lost_Some: "\<exists>s'. call_connection_lost c s = Some s'"
  by (simp add: call_connection_lost_def connection_lost_def split: sum.splits)

lemma protocols_taken:
  "protocols (close_transport c ((write_to c n s)\<lparr>clients := cl\<rparr>)) =
     (protocols s)(c := map_option (\<lambda>p. p\<lparr>transport := transport_close (transport_write n (transport p))\<rparr>) (protocols s c))"
  by (auto simp: close_transport_def write_to_def update_protocol_def fun_eq_iff option.map_comp comp_def)

text \<open>
  The refusal branch as a step of the composed server: the socket transport of
  the refused connection gets \<open>write(notice)\<close> then \<open>close()\<close>, the others
  nothing.
\<close>

lemma refusal_step:
  assumes "brel b" and "protocols (srv b) c = Some p" and "tstate (transport p) = Open"
    and "login_of (srv b) c = None" and "py_decode d = Inr m" and "py_startswith m ''login:''"
    and "existing_login (parse_login m) (srv b)" and "c \<in> set (clients (srv b))"
  obtains t b' where "socks b c = Some t" "sock_rel t (transport p)"
    "bstep b (Step (Receive c d) k) = Some b'"
    "socks b' c = Some (sock_close (sock_write (k c 0) (name_taken_line (parse_login m)) t))"
    "protocols (srv b') c = Some (p\<lparr>transport := transport_close (transport_write (name_taken_line (parse_login m)) (transport p))\<rparr>)"
    "clients (srv b') = remove1 c (clients (srv b))"
proof -
  let ?n = "name_taken_line (parse_login m)"
  let ?s' = "close_transport c ((write_to c ?n (srv b))\<lparr>clients := remove1 c (clients (srv b))\<rparr>)"
  obtain t where t: "socks b c = Some t" "sock_rel t (transport p)" using brel_SomeD [OF assms(1,2)] by blast
  have "d \<noteq> []" using assms(5,6) py_decode_Inr [OF assms(5)] by (auto simp: py_startswith_iff)
  then have st: "server_step (srv b) (Receive c d) = Some ?s'"
    using assms(2,3,8) data_received_taken [OF assms(5,4,6,7)] by (simp add: tstate_of_def Let_def)
  have ps: "protocols ?s' c = Some (p\<lparr>transport := transport_close (transport_write ?n (transport p))\<rparr>)"
    using assms(2) by (simp add: protocols_taken)
  have "calls (transport_close (transport_write ?n (transport p))) = calls (transport p) @ [TWrite ?n, TClose]"
    by (simp add: transport_close_def transport_write_def)
  then have "bsocks (srv b) ?s' (socks b) k c = Some (sock_close (sock_write (k c 0) ?n t))"
    using ps t(1) assms(2) by (simp add: bsocks_def calls_of_def)
  then show thesis
    using that [OF t, of "\<lparr>srv = ?s', socks = bsocks (srv b) ?s' (socks b) k\<rparr>"] st ps
    by (simp add: bstep_event_def)
qed

lemma brun_brel:
  "brel b \<Longrightarrow> brun b (map (\<lambda>e. Step e (\<lambda>c n. Accepts_all)) es) = Some b' \<Longrightarrow> brel b'"
proof (induction es arbitrary: b)
  case (Cons e es)
  then show ?case by (auto split: option.splits intro: bstep_event_brel)
qed simp

subsection \<open>Properties\<close>

text \<open>
  The server model is the server over asyncio's buffered transports when
  the socket takes every write whole. From any related state (initially, the
  server at start-up with no transports), every list of events gives the same
  run of the server model, and the transports' writer callbacks never have
  anything to send: the server-level theorems hold for the buffered server on
  such sockets.
\<close>

lemma buffered_server_refines:
  assumes "brel b"
  shows "map_option srv (brun b (map (\<lambda>e. Step e (\<lambda>c n. Accepts_all)) es)) = run (srv b) es
     \<and> (\<forall>b' c r. brun b (map (\<lambda>e. Step e (\<lambda>c n. Accepts_all)) es) = Some b' \<longrightarrow> bstep b' (Drain c r) = None)"
  using assms
proof (induction es arbitrary: b)
  case Nil
  then show ?case by (simp add: bstep_drain_none)
next
  case (Cons e es)
  show ?case
  proof (cases "bstep_event b e (\<lambda>c n. Accepts_all)")
    case None
    then have "server_step (srv b) e = None" using bstep_event_srv [OF Cons.prems, of e "\<lambda>c n. Accepts_all"] by simp
    then show ?thesis using None by simp
  next
    case (Some b')
    then have "server_step (srv b) e = Some (srv b')" using bstep_event_srv [OF Cons.prems, of e "\<lambda>c n. Accepts_all"] by simp
    moreover have "brel b'" using Cons.prems Some by (rule bstep_event_brel)
    ultimately show ?thesis using Some Cons.IH [of b'] by simp
  qed
qed

text \<open>
  C32: a refused login gets its notice on a congested socket too. From a
  related state, the refusal branch of \<open>data_received\<close> (lines 65--69) writes
  the name-taken notice and closes the transport; whatever the socket takes of
  the notice, the transport has accepted all of it, and while any of it is
  buffered the loop cannot run \<open>connection_lost\<close>. One more event of that
  connection (the writer callback once the socket takes the rest, or the
  scheduled \<open>connection_lost\<close>) hands the kernel the whole notice and ends
  the connection.
\<close>

theorem refusal_notice_delivered:
  assumes "brel b" and "tstate_of (srv b) c = Some Open" and "login_of (srv b) c = None"
    and "py_decode d = Inr m" and "py_startswith m ''login:''"
    and "existing_login (parse_login m) (srv b)" and "c \<in> set (clients (srv b))"
    and "k c 0 \<noteq> Send_fails"
  shows "\<exists>t b' u. socks b c = Some t \<and> bstep b (Step (Receive c d) k) = Some b' \<and> socks b' c = Some u
     \<and> st_sent u @ st_buffer u = st_sent t @ name_taken_line (parse_login m)
     \<and> (st_buffer u \<noteq> [] \<longrightarrow> (\<forall>k'. bstep b' (Step (Lost c) k') = None))
     \<and> (\<exists>e b'' w. bstep b' e = Some b'' \<and> socks b'' c = Some w \<and> st_lost_called w
          \<and> st_sent w = st_sent t @ name_taken_line (parse_login m) \<and> tstate_of (srv b'') c = Some Closed)"
proof -
  let ?n = "name_taken_line (parse_login m)"
  obtain p where p: "protocols (srv b) c = Some p" "tstate (transport p) = Open"
    using assms(2) by (auto simp: tstate_of_def)
  obtain t b' where t: "socks b c = Some t" "sock_rel t (transport p)"
    and st: "bstep b (Step (Receive c d) k) = Some b'"
    and u: "socks b' c = Some (sock_close (sock_write (k c 0) ?n t))"
    and pb': "protocols (srv b') c = Some (p\<lparr>transport := transport_close (transport_write ?n (transport p))\<rparr>)"
    using refusal_step [OF assms(1) p assms(3-7)] by blast
  let ?u = "sock_close (sock_write (k c 0) ?n t)"
  have o: "\<not> st_closing t" "\<not> st_lost_called t" "st_buffer t = []" using sock_rel_open [OF t(2) p(2)] by simp_all
  have inv: "sock_inv t" using t(2) by (rule sock_rel_inv)
  have acc: "st_sent ?u @ st_buffer ?u = st_sent t @ ?n"
    using write_close_accepts [OF inv o(1) _ assms(8)] o(3) by simp
  have ui: "sock_inv ?u" "st_closing ?u" "\<not> st_lost_called ?u" using write_close_inv [OF inv o(1)] by simp_all
  have closing: "tstate_of (srv b') c = Some Closing"
    using pb' p(2) by (simp add: tstate_of_def transport_write_def transport_close_def)
  have nolost: "st_buffer ?u \<noteq> [] \<longrightarrow> (\<forall>k'. bstep b' (Step (Lost c) k') = None)"
    using ui(1) u by (auto simp: bstep_event_def sock_inv_def)
  obtain s'' where cl: "call_connection_lost c (srv b') = Some s''" using call_connection_lost_Some by blast
  have closed: "tstate_of s'' c = Some Closed"
    using protocols_call_connection_lost [OF cl] pb' by (simp add: tstate_of_def)
  have "\<exists>e b'' w. bstep b' e = Some b'' \<and> socks b'' c = Some w \<and> st_lost_called w
          \<and> st_sent w = st_sent t @ ?n \<and> tstate_of (srv b'') c = Some Closed"
  proof (cases "st_buffer ?u = []")
    case True
    then have "0 < st_conn_lost ?u" using ui by (auto simp: sock_inv_def)
    then show ?thesis
      using True u ui(3) acc closing cl closed
      by (intro exI [of _ "Step (Lost c) (\<lambda>c n. Accepts_all)"]) (simp add: bstep_event_def)
  next
    case False
    then have "st_conn_lost ?u = 0" using ui(1) by (simp add: sock_inv_def)
    then show ?thesis
      using False u ui(2,3) acc cl closed
      by (intro exI [of _ "Drain c Accepts_all"]) (simp add: bstep_drain_def sock_write_ready_def Let_def)
  qed
  then show ?thesis using t(1) st u acc nolost by blast
qed

theorem refusal_notice_delivered_witness:
  "\<exists>b1 b' u. brun bserver_init [Step (Accept 0) (\<lambda>c n. Accepts_all), Step (Receive 0 ''login:bob'') (\<lambda>c n. Accepts_all),
        Step (Accept 1) (\<lambda>c n. Accepts_all)] = Some b1
     \<and> bstep b1 (Step (Receive 1 ''login:bob'') (\<lambda>c n. Accepts 3)) = Some b' \<and> socks b' 1 = Some u
     \<and> st_sent u @ st_buffer u = name_taken_line ''bob''
     \<and> (\<exists>e b'' w. bstep b' e = Some b'' \<and> socks b'' 1 = Some w \<and> st_sent w = name_taken_line ''bob'')"
proof -
  let ?es = "[Accept 0, Receive 0 ''login:bob'', Accept 1]"
  have "map_option (\<lambda>b. (tstate_of (srv b) 1, login_of (srv b) 1, existing_login ''bob'' (srv b), clients (srv b),
          map_option st_sent (socks b 1)))
          (brun bserver_init (map (\<lambda>e. Step e (\<lambda>c n. Accepts_all)) ?es))
        = Some (Some Open, None, True, [0, 1], Some [])"
    by code_simp
  then obtain b1 where r: "brun bserver_init (map (\<lambda>e. Step e (\<lambda>c n. Accepts_all)) ?es) = Some b1"
    and h: "tstate_of (srv b1) 1 = Some Open" "login_of (srv b1) 1 = None" "existing_login ''bob'' (srv b1)"
      "clients (srv b1) = [0, 1]" "map_option st_sent (socks b1 1) = Some []"
    by auto
  have "brel b1" using brel_init r by (rule brun_brel)
  moreover have dec: "py_decode ''login:bob'' = Inr ''login:bob''" and sw: "py_startswith ''login:bob'' ''login:''"
    and pl: "parse_login ''login:bob'' = ''bob''"
    by code_simp+
  moreover have "existing_login (parse_login ''login:bob'') (srv b1)" "(1::conn) \<in> set (clients (srv b1))"
    "(\<lambda>c n. Accepts 3) (1::conn) (0::nat) \<noteq> Send_fails"
    using h(3,4) pl by simp_all
  ultimately have "\<exists>t b' u. socks b1 1 = Some t \<and> bstep b1 (Step (Receive 1 ''login:bob'') (\<lambda>c n. Accepts 3)) = Some b'
      \<and> socks b' 1 = Some u \<and> st_sent u @ st_buffer u = st_sent t @ name_taken_line ''bob''
      \<and> (\<exists>e b'' w. bstep b' e = Some b'' \<and> socks b'' 1 = Some w \<and> st_sent w = st_sent t @ name_taken_line ''bob'')"
    using refusal_notice_delivered [of b1 1 "''login:bob''" "''login:bob''" "\<lambda>c n. Accepts 3"] h(1,2)
    unfolding pl by blast
  then obtain t b' u where "socks b1 1 = Some t" "bstep b1 (Step (Receive 1 ''login:bob'') (\<lambda>c n. Accepts 3)) = Some b'"
      "socks b' 1 = Some u" "st_sent u @ st_buffer u = st_sent t @ name_taken_line ''bob''"
      "\<exists>e b'' w. bstep b' e = Some b'' \<and> socks b'' 1 = Some w \<and> st_sent w = st_sent t @ name_taken_line ''bob''"
    by blast
  moreover have "st_sent t = []" using h(5) \<open>socks b1 1 = Some t\<close> by simp
  ultimately show ?thesis using r by auto
qed

end
