(* ===== verification/Spec2Isabelle.thy ===== *)
theory Spec2Isabelle
  imports Registry_Abs Session Code_Points Quoting Buffered_Server
begin

text \<open>
  Verification development of the asyncio chat server \<open>src/app/server.py\<close>.

  \<^bold>\<open>The program.\<close> One Python module. \<open>HistoryStorage\<close> (lines 11--32) keeps
  the message log in an in-memory SQLite table; one instance, the module-level
  \<open>history\<close>, is shared by all connections. \<open>Server\<close> (lines 111--131) owns the
  list \<open>clients\<close> of protocol objects and starts the asyncio listener, which
  makes one \<open>ClientProtocol\<close> (lines 38--108) per accepted connection and calls
  its handlers: \<open>connection_made\<close> appends it to \<open>Server.clients\<close>;
  \<open>data_received\<close> decodes a chunk and either handles a \<open>login:\<close> command
  (\<open>_existing_login\<close>, greeting, \<open>send_history\<close>, or the name-taken reply,
  removal from the list and close) or, once logged in, \<open>send_message\<close> (save to
  the log, then write to every listed protocol with another login);
  \<open>connection_lost\<close> removes the protocol from the list.

  \<^bold>\<open>The theories.\<close>
  \<^item> \<open>Chat_Prelude\<close>: Python values (\<open>str\<close> as UTF-8 bytes, object identities
    as numbers), the exceptions, the result of a handler (\<open>Ok\<close>, \<open>Exc\<close> with the
    state at the raise, or \<open>Outside_model\<close>), CPython's \<open>list.remove\<close>.
  \<^item> \<open>Py_Str\<close>: \<open>bytes.decode\<close> (UTF-8 well-formedness), \<open>str.startswith\<close>,
    \<open>str.replace\<close>, \<open>str.strip\<close>, computed as CPython does on the encoding;
    \<open>py_strip_spec\<close> (the strip removes whole whitespace sequences from both
    ends and leaves none there).
  \<^item> \<open>Code_Points\<close>: \<open>data.decode()\<close> as a sequence of code points and
    CPython's \<open>str.strip()\<close> on it; \<open>py_strip_code_points\<close> (on every
    decodable chunk, \<open>py_strip\<close> on the bytes is CPython's strip on the code
    points), the check that the byte-level model is faithful.
  \<^item> \<open>Sql_Fragment\<close>: the f-string of \<open>save_message\<close> and SQLite's reading of it,
    for the fragment of the grammar the statement lives in (rows of
    double-quoted literals, whitespace and comments between tokens, after a
    semicolon only what CPython's \<open>sqlite3\<close> skips), with the texts SQLite
    certainly rejects (an unclosed quote, an identifier after a value, a row
    with other than two values, a NUL, a second statement); every other text is
    \<open>Sql_unknown\<close>. \<open>dq_double\<close> writes a value as a literal must hold it.
  \<^item> \<open>History\<close>: \<open>HistoryStorage\<close> as a record of the table's rows and its
    AUTOINCREMENT counter; \<open>save_message\<close>, \<open>take_history\<close>; the log's
    invariant; C6 (the replay is the last \<open>n\<close> messages, oldest first), C10
    (SQL injection), C13 (saved then read back), C28 (a message ending in a
    comment forges any rows).
  \<^item> \<open>Protocol\<close>: the asyncio transport (open, closing, closed; the data it
    accepted; the log of the calls made on it), \<open>ClientProtocol\<close> and
    \<open>Server\<close> as records, the protocol objects in a store indexed by identity
    that \<open>Server.clients\<close> refers into, and every handler with every branch:
    \<open>connection_made\<close>, \<open>_existing_login\<close>, \<open>send_history\<close>,
    \<open>send_message\<close>, \<open>data_received\<close>, \<open>connection_lost\<close>. Frame lemmas (what
    a write, a close or a save leaves alone, which transports a step calls),
    one equation per branch of \<open>data_received\<close> and an elimination rule over
    all of them (\<open>data_received_cases\<close>), and C2--C5 and C12.
  \<^item> \<open>Event_Loop\<close>: the listener and the asyncio loop as a deterministic step
    function over events the environment chooses (accept, a chunk, the peer
    closing, the scheduled \<open>connection_lost\<close>), including what asyncio does with
    an exception escaping a handler (\<open>_fatal_error\<close>: report, then
    \<open>_force_close\<close>); runs of event lists; reachable states; the module's
    entry point (\<open>main\<close>: serve until a keyboard interrupt).
  \<^item> \<open>Registry\<close>: the invariant of \<open>Server.clients\<close> (no duplicates, only live
    objects, no two equal logins), one preservation lemma per handler, C1, and
    C19 for the log (its keys are \<open>1..n\<close> with no gap).
  \<^item> \<open>Lifecycle\<close>: how the registry and the transports' states agree (a listed
    protocol is open or closing, an open one is listed: C16), that a reachable
    state has finitely many protocol objects, and that every connection ends:
    at most two of its own events close it and nothing of it runs afterwards
    (C18), and from every reachable state some run closes every connection and
    empties the registry (C17); an event of one connection leaves the others'
    transports alone (C24); once \<open>connection_lost\<close> has run, the program
    makes no further call on that transport (C25).
  \<^item> \<open>Registry_Abs\<close>: the spec's ClientRegistry (a set of sessions keyed by
    display name) as an abstraction of \<open>Server.clients\<close>, the registered
    (login, protocol) pairs, and C23: every step of a reachable state changes it
    only by an insert-if-absent at login or the removal of a lost session.
  \<^item> \<open>Session\<close>: the spec's session machine (UNAUTHENTICATED, AUTHENTICATED,
    CLOSED) as an abstraction of a protocol, \<open>session_refinement\<close> (every
    server step refines it) and C7 (logins never change).
  \<^item> \<open>Transport\<close>: asyncio's \<open>_SelectorSocketTransport\<close> in detail (the
    bytes the socket took, the buffer, \<open>_conn_lost\<close>, \<open>close()\<close> that waits for
    the buffer, \<open>_force_close\<close> that drops it, the writer callback), with the
    kernel's choice of how much each send takes; its invariant; the relation
    \<open>sock_rel\<close> to the transport of \<open>Protocol\<close>, kept by write, close,
    \<open>_force_close\<close> and the scheduled \<open>connection_lost\<close> when every send is taken
    whole; on one transport, a write then \<open>close()\<close> delivers the data before
    \<open>connection_lost\<close>.
  \<^item> \<open>Buffered_Server\<close>: the composition. A step of \<open>bstep\<close> runs
    \<open>server_step\<close> and replays the calls it made on each connection's socket
    transport (\<open>replay\<close>, \<open>bsocks\<close>), with the kernel's choice for every send;
    the loop also runs a transport's writer callback (\<open>Drain\<close>), and the
    scheduled \<open>connection_lost\<close> only once the socket transport scheduled it.
    \<open>buffered_server_refines\<close>: with sockets that take every write whole,
    \<open>brun\<close> has exactly the runs of \<open>run\<close>, so every theorem about \<open>run\<close>
    holds of the composed server. C32: a refused login on a congested socket
    gets the whole notice sent or buffered, \<open>connection_lost\<close> waits for the
    buffer, and the loop can then deliver it and close the connection.
  \<^item> \<open>Quoting\<close>: one chat step whose message SQLite saves or refuses, and
    C27 (a doubled quote is broadcast as sent but logged and replayed as one)
    and C29 (a quote followed by a comma disconnects the sender).
  \<^item> this theory: the properties that run the whole server from any reachable
    state: C8 (a guest gets a message live and again in its replay), C9, C11,
    C14, C15, and over runs of several events C20 (a login's replay has
    \<open>min 10 n\<close> lines), C21 (one sender's messages arrive and are stored in
    order), C22 (replay, then live delivery, for a client that logs in), C26 (a
    login differing only in whitespace passes for another user), C30 (a
    message cut inside a character disconnects its sender), C31 (a login and a
    chat line in one chunk make one login with the line in the name) and C33
    (after an exception the protocol stays listed until \<open>connection_lost\<close>,
    and a broadcast still calls \<open>write\<close> on its closed transport).

  \<^bold>\<open>Correspondence.\<close> Each handler is a function of the whole server state
  (\<open>server\<close>: \<open>clients\<close>, \<open>protocols\<close>, \<open>history\<close>, and \<open>errors\<close>, what the loop's
  exception handler reported) and returns a \<open>py_result\<close>; statements run in the
  source's order, so a raise leaves the mutations made before it. The loop runs
  one callback at a time to its end, which makes the name check and the login
  one atomic step and the history snapshot of a login atomic with the
  registration, as in the program.

  \<^bold>\<open>Bounds.\<close> No loop of the program is unbounded: every recursion is
  structural or decreases a length (\<open>str.replace\<close>, \<open>str.strip\<close>, the SQL
  parser), so there is no fuel. The event loop's runs are finite event lists
  the environment chooses; liveness (C17, C18) is the existence of such a list
  from every reachable state, built from each connection's state
  (\<open>Lifecycle.close_events\<close>). The replay limit is the source's 10; SQLite's
  \<open>LIMIT\<close> with a negative argument is unbounded, as modelled. Message keys are
  \<open>nat\<close>: SQLite's 64-bit limit on AUTOINCREMENT keys is far beyond any run.

  \<^bold>\<open>Not modelled.\<close> Socket I/O, the binding to 127.0.0.1:8888, console output
  (\<open>print\<close>, which changes no state the program reads); of the entry point
  only its effect on the server (serve until the interrupt). The server model
  uses the transport of \<open>Protocol\<close>, which sends every write at once: it
  accepts a write while open and drops it once closing. The lemma
  \<open>buffered_server_refines\<close> shows that the server over asyncio's buffered
  transports has the same runs whenever the socket takes each write whole,
  so the theorems about \<open>run\<close> hold of it for such sockets. Flow control
  (\<open>pause_writing\<close>) is a no-op for \<open>ClientProtocol\<close>, which does not override
  it. SQLite is modelled only on the fragment above: a statement
  outside it stops the run (\<open>server_step\<close> returns \<open>None\<close>), so the theorems
  about reachable states are about the runs whose messages stay in the
  fragment, which includes every message without a double quote. SQLite is
  assumed built with double-quoted string literals accepted (its default).

  With partial sends the composed server (\<open>Buffered_Server\<close>) is the model;
  C32 is proved there for every kernel choice except a failing first send.

  \<^bold>\<open>Further work.\<close> The invariants of \<open>Registry\<close> and
  \<open>Lifecycle\<close> carried over to the composed server under every kernel choice;
  SQLite's expression grammar after a value (operators such as \<open>||\<close> are
  \<open>Sql_unknown\<close> now).
\<close>

section \<open>Properties that span the components\<close>

text \<open>
  A login whose name no listed protocol holds, as one step of the loop.
\<close>

lemma login_step:
  assumes "tstate_of s b = Some Open" and "login_of s b = None"
    and "py_decode d = Inr lm" and "py_startswith lm ''login:''" and "\<not> existing_login (parse_login lm) s"
  shows "server_step s (Receive b d) =
           Some (send_history b 10 (write_to b (hello_line (parse_login lm))
                   (update_protocol b (\<lambda>p. p\<lparr>login := Some (parse_login lm)\<rparr>) s)))"
proof -
  have "d \<noteq> []" using assms(3,4) py_decode_Inr [OF assms(3)] by (auto simp: py_startswith_iff)
  then show ?thesis using assms(1) data_received_login [OF assms(3,2,4,5)] by simp
qed

text \<open>
  C8: the registry admits connections before login, so from every reachable
  state a guest (connected, not logged in) receives a chat message live, and
  when it then logs in, its history replay ends with the same message: it
  receives the message twice. The spec's exclusivity of replay and live
  broadcast fails for guests.
\<close>

theorem guest_sees_message_twice:
  assumes "reach s" and "tstate_of s g = Some Open" and "login_of s g = None"
    and "login_of s a = Some l" and "tstate_of s a = Some Open"
    and "dq \<notin> set l" "CHR 0x00 \<notin> set l"
    and "utf8_valid m" "m \<noteq> []" "dq \<notin> set m" "CHR 0x00 \<notin> set m"
    and "py_decode d = Inr lm" and "py_startswith lm ''login:''" and "\<not> existing_login (parse_login lm) s"
  shows "\<exists>t r. run s [Receive a m, Receive g d] = Some t \<and>
           written_to t g = written_to s g @ chat_line l m # hello_line (parse_login lm) # r @ [history_line (l, m)]"
proof -
  let ?h = "insert_rows [(l, m)] (history s)"
  let ?s1 = "broadcast (clients s) (Some l) (chat_line l m) (s\<lparr>history := ?h\<rparr>)"
  let ?t = "send_history g 10 (write_to g (hello_line (parse_login lm))
              (update_protocol g (\<lambda>p. p\<lparr>login := Some (parse_login lm)\<rparr>) ?s1))"
  have s1: "server_step s (Receive a m) = Some ?s1"
    using assms(4,5,8,9,6,10,7,11) by (rule chat_step)
  have f: "login_of ?s1 = login_of s" "tstate_of ?s1 = tstate_of s" "clients ?s1 = clients s"
    "history ?s1 = ?h"
    by simp_all
  have "\<not> existing_login (parse_login lm) ?s1" using assms(14) f by (simp add: existing_login_def)
  then have t: "server_step ?s1 (Receive g d) = Some ?t"
    using login_step [of ?s1 g d lm] assms(2,3,12,13) f by simp
  have wf: "conn_wf s" using assms(1) by (rule reach_conn_wf)
  have "g \<in> set (clients s)" using wf assms(2) by (simp add: conn_wf_def)
  moreover have "distinct (clients s)" using reach_registry_inv [OF assms(1)] by (simp add: registry_inv_def)
  ultimately have w1: "written_to ?s1 g = written_to s g @ [chat_line l m]"
    using assms(2,3) by (simp add: written_to_broadcast)
  have w2: "written_to ?t g = written_to ?s1 g @ hello_line (parse_login lm) # map history_line (take_history 10 ?h)"
    using written_to_login [of ?s1 g] f assms(2) by simp
  obtain xs where "take_history 10 ?h = xs @ [(l, m)]"
    using take_history_insert_snoc [OF reach_history_inv [OF assms(1)], of 10] by simp
  then have "written_to ?t g = written_to s g @ chat_line l m # hello_line (parse_login lm) #
               map history_line xs @ [history_line (l, m)]"
    using w1 w2 by simp
  then show ?thesis using s1 t by auto
qed

theorem guest_sees_message_twice_witness:
  "\<exists>s t r. run server_init [Accept 0, Receive 0 ''login:alice'', Accept 1] = Some s
     \<and> run s [Receive 0 ''hi'', Receive 1 ''login:bob''] = Some t
     \<and> written_to t 1 = ''<alice>: hi'' # ''Hello, bob'' # r @ [[CHR 0x0A, CHR 0x0D] @ ''<alice>: hi'']"
proof -
  have "map_option (\<lambda>t. (tstate_of t 1, login_of t 1, existing_login ''bob'' t,
          login_of t 0, tstate_of t 0, written_to t 1))
          (run server_init [Accept 0, Receive 0 ''login:alice'', Accept 1])
        = Some (Some Open, None, False, Some ''alice'', Some Open, [])"
    by code_simp
  then obtain s where r: "run server_init [Accept 0, Receive 0 ''login:alice'', Accept 1] = Some s"
    and h: "tstate_of s 1 = Some Open" "login_of s 1 = None" "\<not> existing_login ''bob'' s"
      "login_of s 0 = Some ''alice''" "tstate_of s 0 = Some Open" "written_to s 1 = []"
    by auto
  have "reach s" using reach.init r by (rule run_reach)
  moreover have "py_decode ''login:bob'' = Inr ''login:bob''" "py_startswith ''login:bob'' ''login:''"
    "parse_login ''login:bob'' = ''bob''" "hello_line ''bob'' = ''Hello, bob''"
    "history_line (''alice'', ''hi'') = [CHR 0x0A, CHR 0x0D] @ ''<alice>: hi''"
    "chat_line ''alice'' ''hi'' = ''<alice>: hi''"
    by code_simp+
  ultimately obtain t r' where "run s [Receive 0 ''hi'', Receive 1 ''login:bob''] = Some t"
    and "written_to t 1 = ''<alice>: hi'' # ''Hello, bob'' # r' @ [[CHR 0x0A, CHR 0x0D] @ ''<alice>: hi'']"
    using guest_sees_message_twice [of s 1 0 "''alice''" "''hi''" "''login:bob''" "''login:bob''"] h
    by (auto simp: dq_def)
  with r show ?thesis by blast
qed

text \<open>
  C9: \<open>connection_lost\<close> of a connection that is no longer in
  \<open>Server.clients\<close> raises \<open>ValueError\<close> (\<open>list.remove\<close> of an absent item),
  which the loop's exception handler reports. The name-taken path of
  \<open>data_received\<close> removes the protocol itself before closing, so a refused
  login leaves its protocol closing and out of the list (C2, with the list
  free of duplicates), and its \<open>connection_lost\<close> then raises, as the witness
  runs; the spec asks for removal exactly once.
\<close>

theorem lost_after_refusal_raises:
  assumes "tstate_of s c = Some Closing" and "c \<notin> set (clients s)"
  shows "\<exists>t. server_step s (Lost c) = Some t \<and> errors t = errors s @ [(c, ValueError)]
     \<and> clients t = clients s \<and> tstate_of t c = Some Closed"
proof -
  have "server_step s (Lost c) = Some (mark_closed c (report c ValueError s))"
    using assms by (simp add: call_connection_lost_def connection_lost_def)
  moreover have "tstate_of (mark_closed c (report c ValueError s)) c = Some Closed"
    using assms(1) by (auto simp: mark_closed_def update_protocol_def tstate_of_def report_def)
  moreover have "errors (mark_closed c (report c ValueError s)) = errors s @ [(c, ValueError)]"
    and "clients (mark_closed c (report c ValueError s)) = clients s"
    by (simp_all add: mark_closed_def)
  ultimately show ?thesis by blast
qed

theorem lost_after_refusal_raises_witness:
  "\<exists>s t. run server_init [Accept 0, Receive 0 ''login:alice'', Accept 1, Receive 1 ''login:alice''] = Some s
     \<and> server_step s (Lost 1) = Some t \<and> errors t = [(1, ValueError)]"
proof -
  have "case run server_init [Accept 0, Receive 0 ''login:alice'', Accept 1, Receive 1 ''login:alice''] of
          Some s \<Rightarrow> tstate_of s 1 = Some Closing \<and> 1 \<notin> set (clients s) \<and> errors s = [] | None \<Rightarrow> False"
    by code_simp
  then obtain s where r: "run server_init [Accept 0, Receive 0 ''login:alice'', Accept 1, Receive 1 ''login:alice''] = Some s"
    and h: "tstate_of s 1 = Some Closing" "1 \<notin> set (clients s)" and e: "errors s = []"
    by (auto split: option.splits)
  from lost_after_refusal_raises [OF h] obtain t where
    "server_step s (Lost 1) = Some t" "errors t = errors s @ [(1, ValueError)]" by blast
  with r e show ?thesis by auto
qed

text \<open>
  C11: a chat message containing a quoted word makes \<open>save_message\<close> raise; the
  exception escapes \<open>data_received\<close>, the loop reports it and force-closes the
  sender's connection. The message is neither saved nor broadcast.
\<close>

theorem quoted_message_disconnects:
  assumes "login_of s c = Some l" and "tstate_of s c = Some Open"
    and "dq \<notin> set l" and "dq \<notin> set v" and "CHR 0x00 \<notin> set (l @ v)"
    and "utf8_valid (v @ dq # ''hi'' @ [dq])"
  shows "\<exists>t. server_step s (Receive c (v @ dq # ''hi'' @ [dq])) = Some t
     \<and> history t = history s \<and> written_to t = written_to s \<and> tstate_of t c = Some Closing
     \<and> errors t = errors s @ [(c, SqliteError)]"
proof -
  have sv: "save_message l (v @ dq # ''hi'' @ [dq]) (history s) = Exc SqliteError (history s)"
    using assms(3-5) by (rule save_message_quote_raises)
  have "server_step s (Receive c (v @ dq # ''hi'' @ [dq])) = Some (fatal_error c SqliteError s)"
    by (rule save_raises_step [OF assms(1,2,6) _ sv]) simp
  then show ?thesis using fatal_error_effects [OF assms(2), of SqliteError] by blast
qed

theorem quoted_message_disconnects_witness:
  "\<exists>t. server_step alice_and_guest (Receive 0 (''say '' @ dq # ''hi'' @ [dq])) = Some t
     \<and> tstate_of t 0 = Some Closing \<and> written_to t 1 = [] \<and> errors t = [(0, SqliteError)]"
proof -
  have h: "login_of alice_and_guest 0 = Some ''alice''" "tstate_of alice_and_guest 0 = Some Open"
    "dq \<notin> set ''alice''" "dq \<notin> set ''say ''" "CHR 0x00 \<notin> set (''alice'' @ ''say '')"
    "utf8_valid (''say '' @ dq # ''hi'' @ [dq])"
    by code_simp+
  have w: "written_to alice_and_guest 1 = []" "errors alice_and_guest = []" by code_simp+
  obtain t where r: "server_step alice_and_guest (Receive 0 (''say '' @ dq # ''hi'' @ [dq])) = Some t"
    and "written_to t = written_to alice_and_guest" and "tstate_of t 0 = Some Closing"
    and "errors t = errors alice_and_guest @ [(0, SqliteError)]"
    using quoted_message_disconnects [OF h] by blast
  with w have "tstate_of t 0 = Some Closing \<and> written_to t 1 = [] \<and> errors t = [(0, SqliteError)]"
    by simp
  with r show ?thesis by blast
qed

text \<open>
  C14: bytes that are not UTF-8 make \<open>data.decode()\<close> raise; the loop reports
  \<open>UnicodeDecodeError\<close> and force-closes the connection, touching nothing else:
  no transport is written to, no other transport changes state, and the list,
  the logins and the log stay as they were.
\<close>

theorem undecodable_input_disconnects:
  assumes "tstate_of s c = Some Open" and "d \<noteq> []" and "\<not> utf8_valid d"
  shows "\<exists>t. server_step s (Receive c d) = Some t \<and> written_to t = written_to s
     \<and> clients t = clients s \<and> tstate_of t c = Some Closing \<and> errors t = errors s @ [(c, UnicodeDecodeError)]
     \<and> login_of t = login_of s \<and> history t = history s \<and> (\<forall>x. x \<noteq> c \<longrightarrow> tstate_of t x = tstate_of s x)"
proof -
  have "server_step s (Receive c d) = Some (fatal_error c UnicodeDecodeError s)"
    using assms by (simp add: data_received_undecodable py_decode_def)
  moreover have "login_of (fatal_error c UnicodeDecodeError s) = login_of s"
    by (simp add: fatal_error_def report_def login_of_def fun_eq_iff)
  moreover have "\<forall>x. x \<noteq> c \<longrightarrow> tstate_of (fatal_error c UnicodeDecodeError s) x = tstate_of s x"
    by (simp add: fatal_error_def tstate_of_force_close_transport)
  ultimately show ?thesis using fatal_error_effects [OF assms(1), of UnicodeDecodeError] by blast
qed

theorem undecodable_input_disconnects_witness:
  "\<exists>t. server_step (connection_made 0 server_init) (Receive 0 [CHR 0xFF]) = Some t
     \<and> tstate_of t 0 = Some Closing \<and> errors t = [(0, UnicodeDecodeError)]"
proof -
  have h: "tstate_of (connection_made 0 server_init) 0 = Some Open" "[CHR 0xFF] \<noteq> []"
    "\<not> utf8_valid [CHR 0xFF]"
    by code_simp+
  have w: "errors (connection_made 0 server_init) = []" by code_simp
  obtain t where r: "server_step (connection_made 0 server_init) (Receive 0 [CHR 0xFF]) = Some t"
    and "tstate_of t 0 = Some Closing"
    and "errors t = errors (connection_made 0 server_init) @ [(0, UnicodeDecodeError)]"
    using undecodable_input_disconnects [OF h] by blast
  with w have "tstate_of t 0 = Some Closing \<and> errors t = [(0, UnicodeDecodeError)]" by simp
  with r show ?thesis by blast
qed

text \<open>
  C15: before login, a chunk that does not start with \<open>login:\<close> is ignored:
  the step leaves the whole server state as it was.
\<close>

theorem unauthenticated_chatter_ignored:
  assumes "tstate_of s c = Some Open" and "login_of s c = None" and "d \<noteq> []"
    and "utf8_valid d" and "\<not> py_startswith d ''login:''"
  shows "server_step s (Receive c d) = Some s"
  using assms by (simp add: data_received_ignored py_decode_def)

theorem unauthenticated_chatter_ignored_witness:
  "server_step (connection_made 0 server_init) (Receive 0 ''hello'') = Some (connection_made 0 server_init)"
proof -
  have h: "tstate_of (connection_made 0 server_init) 0 = Some Open"
    "login_of (connection_made 0 server_init) 0 = None" "''hello'' \<noteq> []" "utf8_valid ''hello''"
    "\<not> py_startswith ''hello'' ''login:''"
    by code_simp+
  show ?thesis by (rule unauthenticated_chatter_ignored [OF h])
qed


subsection \<open>Runs of several events\<close>

text \<open>
  C20: the replay a login sends is bounded by the limit: from a reachable
  state, a successful login writes the greeting and then one line for each of
  the last \<open>min 10 n\<close> of the \<open>n\<close> saved messages, oldest first.
\<close>

theorem login_replay_bounded:
  assumes "reach s" and "tstate_of s c = Some Open" and "login_of s c = None"
    and "py_decode d = Inr m" and "py_startswith m ''login:''" and "\<not> existing_login (parse_login m) s"
  shows "\<exists>t. server_step s (Receive c d) = Some t \<and>
     written_to t c = written_to s c @ hello_line (parse_login m) #
       map history_line (drop (length (messages (history s)) - 10) (map snd (messages (history s)))) \<and>
     length (written_to t c) = length (written_to s c) + 1 + min 10 (length (messages (history s)))"
proof -
  let ?t = "send_history c 10 (write_to c (hello_line (parse_login m))
              (update_protocol c (\<lambda>p. p\<lparr>login := Some (parse_login m)\<rparr>) s))"
  have "d \<noteq> []" using assms(4,5) py_decode_Inr [OF assms(4)] by (auto simp: py_startswith_iff)
  then have "server_step s (Receive c d) = Some ?t"
    using assms(2) data_received_login [OF assms(4,3,5,6)] by simp
  moreover have "take_history 10 (history s) =
      drop (length (messages (history s)) - 10) (map snd (messages (history s)))"
    using take_history_eq_last [OF reach_history_inv [OF assms(1)], of 10] by simp
  ultimately show ?thesis using written_to_login [OF assms(2)] by auto
qed

theorem login_replay_bounded_witness:
  "\<exists>t u. run server_init ([Accept 0, Receive 0 ''login:a''] @ replicate 11 (Receive 0 ''m'') @ [Accept 1]) = Some t
     \<and> length (messages (history t)) = 11 \<and> server_step t (Receive 1 ''login:b'') = Some u
     \<and> length (written_to u 1) = 11"
proof -
  have "map_option (\<lambda>t. (tstate_of t 1, login_of t 1, existing_login ''b'' t,
          length (messages (history t)), written_to t 1)) (run server_init ([Accept 0, Receive 0 ''login:a''] @ replicate 11 (Receive 0 ''m'') @ [Accept 1]))
        = Some (Some Open, None, False, 11, [])"
    by code_simp
  then obtain t where r: "run server_init ([Accept 0, Receive 0 ''login:a''] @ replicate 11 (Receive 0 ''m'') @ [Accept 1]) = Some t"
    and h: "tstate_of t 1 = Some Open" "login_of t 1 = None" "\<not> existing_login ''b'' t"
      "length (messages (history t)) = 11" "written_to t 1 = []"
    by auto
  have "reach t" using reach.init r by (rule run_reach)
  moreover have "py_decode ''login:b'' = Inr ''login:b''" "py_startswith ''login:b'' ''login:''"
    "parse_login ''login:b'' = ''b''"
    by code_simp+
  ultimately obtain u where "server_step t (Receive 1 ''login:b'') = Some u"
    and "length (written_to u 1) = length (written_to t 1) + 1 + min 10 (length (messages (history t)))"
    using login_replay_bounded [of t 1 "''login:b''" "''login:b''"] h by auto
  with r h show ?thesis by auto
qed

text \<open>
  C21: the messages of one sender reach every other listed open transport in
  the order they were sent, one line each, and the log stores them in that order.
\<close>

theorem sender_order:
  assumes "reach s" and "login_of s a = Some l" and "tstate_of s a = Some Open"
    and "b \<in> set (clients s)" and "login_of s b \<noteq> Some l" and "tstate_of s b = Some Open"
    and "dq \<notin> set l" and "CHR 0x00 \<notin> set l"
    and "utf8_valid m1" "m1 \<noteq> []" "dq \<notin> set m1" "CHR 0x00 \<notin> set m1"
    and "utf8_valid m2" "m2 \<noteq> []" "dq \<notin> set m2" "CHR 0x00 \<notin> set m2"
  shows "\<exists>t. run s [Receive a m1, Receive a m2] = Some t \<and>
           written_to t b = written_to s b @ [chat_line l m1, chat_line l m2] \<and>
           map snd (messages (history t)) = map snd (messages (history s)) @ [(l, m1), (l, m2)]"
proof -
  have d: "distinct (clients s)" using reach_registry_inv [OF assms(1)] by (simp add: registry_inv_def)
  let ?s1 = "broadcast (clients s) (Some l) (chat_line l m1) (s\<lparr>history := insert_rows [(l, m1)] (history s)\<rparr>)"
  let ?t = "broadcast (clients ?s1) (Some l) (chat_line l m2) (?s1\<lparr>history := insert_rows [(l, m2)] (history ?s1)\<rparr>)"
  have s1: "server_step s (Receive a m1) = Some ?s1"
    using assms(2,3,9,10,7,11,8,12) by (rule chat_step)
  have f: "login_of ?s1 = login_of s" "tstate_of ?s1 = tstate_of s" "clients ?s1 = clients s"
    by simp_all
  have t: "server_step ?s1 (Receive a m2) = Some ?t"
    using assms(2,3,13,14,7,15,8,16) f by (intro chat_step) simp_all
  have "written_to ?t b = written_to s b @ [chat_line l m1, chat_line l m2]"
    using d assms(4-6) f by (simp add: written_to_broadcast)
  moreover have "map snd (messages (history ?t)) = map snd (messages (history s)) @ [(l, m1), (l, m2)]"
    by (simp add: insert_rows_messages)
  ultimately show ?thesis using s1 t by simp
qed

theorem sender_order_witness:
  "\<exists>t u. run server_init [Accept 0, Receive 0 ''login:alice'', Accept 1, Receive 1 ''login:bob''] = Some t
     \<and> run t [Receive 0 ''hi'', Receive 0 ''yo''] = Some u
     \<and> written_to u 1 = written_to t 1 @ [''<alice>: hi'', ''<alice>: yo'']"
proof -
  have "map_option (\<lambda>t. (login_of t 0, tstate_of t 0, clients t, login_of t 1, tstate_of t 1))
          (run server_init [Accept 0, Receive 0 ''login:alice'', Accept 1, Receive 1 ''login:bob''])
        = Some (Some ''alice'', Some Open, [0, 1], Some ''bob'', Some Open)"
    by code_simp
  then obtain t where r: "run server_init [Accept 0, Receive 0 ''login:alice'', Accept 1, Receive 1 ''login:bob''] = Some t"
    and h: "login_of t 0 = Some ''alice''" "tstate_of t 0 = Some Open" "clients t = [0, 1]"
      "login_of t 1 = Some ''bob''" "tstate_of t 1 = Some Open"
    by auto
  have "reach t" using reach.init r by (rule run_reach)
  moreover have "chat_line ''alice'' ''hi'' = ''<alice>: hi''" "chat_line ''alice'' ''yo'' = ''<alice>: yo''"
    by code_simp+
  ultimately obtain u where "run t [Receive 0 ''hi'', Receive 0 ''yo''] = Some u"
    and "written_to u 1 = written_to t 1 @ [''<alice>: hi'', ''<alice>: yo'']"
    using sender_order [of t 0 "''alice''" 1 "''hi''" "''yo''"] h by (auto simp: dq_def)
  with r show ?thesis by blast
qed


text \<open>
  C22: replay and live delivery are exclusive for a client that logs in: its
  replay is the log as it was when it registered, and a message saved
  afterwards by another logged-in client reaches it once, live, after the
  replay.
\<close>

theorem replay_then_live:
  assumes "reach s" and "tstate_of s b = Some Open" and "login_of s b = None"
    and "py_decode d = Inr lm" and "py_startswith lm ''login:''" and "\<not> existing_login (parse_login lm) s"
    and "a \<in> set (clients s)" and "login_of s a = Some l" and "tstate_of s a = Some Open"
    and "dq \<notin> set l" "CHR 0x00 \<notin> set l"
    and "utf8_valid m" "m \<noteq> []" "dq \<notin> set m" "CHR 0x00 \<notin> set m"
  shows "\<exists>t. run s [Receive b d, Receive a m] = Some t \<and>
           written_to t b = written_to s b @ hello_line (parse_login lm) #
             map history_line (take_history 10 (history s)) @ [chat_line l m]"
proof -
  let ?n = "parse_login lm"
  let ?s1 = "send_history b 10 (write_to b (hello_line ?n) (update_protocol b (\<lambda>p. p\<lparr>login := Some ?n\<rparr>) s))"
  let ?t = "broadcast (clients ?s1) (Some l) (chat_line l m) (?s1\<lparr>history := insert_rows [(l, m)] (history ?s1)\<rparr>)"
  have "d \<noteq> []" using assms(4,5) py_decode_Inr [OF assms(4)] by (auto simp: py_startswith_iff)
  then have s1: "server_step s (Receive b d) = Some ?s1"
    using assms(2) data_received_login [OF assms(4,3,5,6)] by simp
  have nl: "?n \<noteq> l"
    using assms(6-8) by (auto simp: existing_login_def list_ex_iff)
  have lo: "login_of ?s1 x = (if x = b then Some ?n else login_of s x)" for x
    using set_login_effects(1) [OF assms(2)] by simp
  have ts: "tstate_of ?s1 = tstate_of s" and cl: "clients ?s1 = clients s"
    using set_login_effects(2) [OF assms(2)] by simp_all
  have ab: "a \<noteq> b" using assms(3,8) by auto
  have t: "server_step ?s1 (Receive a m) = Some ?t"
    using assms(8-15) ab lo ts by (intro chat_step) simp_all
  have wf: "conn_wf s" using assms(1) by (rule reach_conn_wf)
  have "b \<in> set (clients s)" using wf assms(2) by (simp add: conn_wf_def)
  moreover have "distinct (clients s)" using reach_registry_inv [OF assms(1)] by (simp add: registry_inv_def)
  ultimately have "written_to ?t b = written_to ?s1 b @ [chat_line l m]"
    using lo ts cl nl assms(2) by (simp add: written_to_broadcast)
  moreover have "written_to ?s1 b = written_to s b @ hello_line ?n # map history_line (take_history 10 (history s))"
    using written_to_login [OF assms(2)] by simp
  ultimately show ?thesis using s1 t by simp
qed

theorem replay_then_live_witness:
  "\<exists>t u. run server_init [Accept 0, Receive 0 ''login:alice'', Receive 0 ''hi'', Accept 1] = Some t
     \<and> run t [Receive 1 ''login:bob'', Receive 0 ''yo''] = Some u
     \<and> written_to u 1 = [''Hello, bob'', [CHR 0x0A, CHR 0x0D] @ ''<alice>: hi'', ''<alice>: yo'']"
proof -
  have "map_option (\<lambda>t. (tstate_of t 1, login_of t 1, existing_login ''bob'' t, clients t,
          login_of t 0, tstate_of t 0, written_to t 1, take_history 10 (history t)))
          (run server_init [Accept 0, Receive 0 ''login:alice'', Receive 0 ''hi'', Accept 1])
        = Some (Some Open, None, False, [0, 1], Some ''alice'', Some Open, [], [(''alice'', ''hi'')])"
    by code_simp
  then obtain t where r: "run server_init [Accept 0, Receive 0 ''login:alice'', Receive 0 ''hi'', Accept 1] = Some t"
    and h: "tstate_of t 1 = Some Open" "login_of t 1 = None" "\<not> existing_login ''bob'' t" "clients t = [0, 1]"
      "login_of t 0 = Some ''alice''" "tstate_of t 0 = Some Open" "written_to t 1 = []"
      "take_history 10 (history t) = [(''alice'', ''hi'')]"
    by auto
  have "reach t" using reach.init r by (rule run_reach)
  moreover have "py_decode ''login:bob'' = Inr ''login:bob''" "py_startswith ''login:bob'' ''login:''"
    "parse_login ''login:bob'' = ''bob''" "hello_line ''bob'' = ''Hello, bob''"
    "history_line (''alice'', ''hi'') = [CHR 0x0A, CHR 0x0D] @ ''<alice>: hi''"
    "chat_line ''alice'' ''yo'' = ''<alice>: yo''"
    by code_simp+
  ultimately obtain u where "run t [Receive 1 ''login:bob'', Receive 0 ''yo''] = Some u"
    and "written_to u 1 = [''Hello, bob'', [CHR 0x0A, CHR 0x0D] @ ''<alice>: hi'', ''<alice>: yo'']"
    using replay_then_live [of t 1 "''login:bob''" "''login:bob''" 0 "''alice''" "''yo''"] h
    by (auto simp: dq_def)
  with r show ?thesis by blast
qed


text \<open>
  C26: from every reachable state, a guest can log in under a name that
  differs from a logged-in user's only in surrounding whitespace
  (\<open>_existing_login\<close> compares names exactly), and its chat lines then reach
  that user exactly as the user's own lines look to others
  (\<open>self.login.strip()\<close> in the line): one client can pass for another.
\<close>

theorem display_name_collision:
  assumes "reach s" and "login_of s a = Some l" and "tstate_of s a = Some Open"
    and "tstate_of s b = Some Open" and "login_of s b = None"
    and "py_decode d = Inr lm" and "py_startswith lm ''login:''"
    and "py_strip (parse_login lm) = py_strip l"
    and "\<forall>x\<in>set (clients s). login_of s x \<noteq> Some (parse_login lm)"
    and "dq \<notin> set (parse_login lm)" "CHR 0x00 \<notin> set (parse_login lm)"
    and "utf8_valid m" "m \<noteq> []" "dq \<notin> set m" "CHR 0x00 \<notin> set m"
  shows "\<exists>t. run s [Receive b d, Receive b m] = Some t \<and> login_of t b = Some (parse_login lm)
           \<and> written_to t a = written_to s a @ [chat_line l m]"
proof -
  let ?n = "parse_login lm"
  let ?s1 = "send_history b 10 (write_to b (hello_line ?n) (update_protocol b (\<lambda>p. p\<lparr>login := Some ?n\<rparr>) s))"
  let ?t = "broadcast (clients ?s1) (Some ?n) (chat_line ?n m) (?s1\<lparr>history := insert_rows [(?n, m)] (history ?s1)\<rparr>)"
  have wf: "conn_wf s" using assms(1) by (rule reach_conn_wf)
  have ain: "a \<in> set (clients s)" using wf assms(3) by (simp add: conn_wf_def)
  have nl: "l \<noteq> ?n" using assms(2,9) ain by auto
  have "\<not> existing_login ?n s" using assms(9) by (auto simp: existing_login_def list_ex_iff)
  then have s1: "server_step s (Receive b d) = Some ?s1" using assms(4-7) by (intro login_step)
  have lo: "login_of ?s1 x = (if x = b then Some ?n else login_of s x)" for x
    using set_login_effects(1) [OF assms(4)] by simp
  have ts: "tstate_of ?s1 = tstate_of s" and cl: "clients ?s1 = clients s"
    using set_login_effects(2) [OF assms(4)] by simp_all
  have ab: "a \<noteq> b" using assms(2,5) by auto
  have "login_of ?s1 b = Some ?n" "tstate_of ?s1 b = Some Open" using lo ts assms(4) by simp_all
  then have t: "server_step ?s1 (Receive b m) = Some ?t"
    using assms(12,13,10,14,11,15) by (rule chat_step)
  have "distinct (clients s)" using reach_registry_inv [OF assms(1)] by (simp add: registry_inv_def)
  then have "written_to ?t a = written_to ?s1 a @ [chat_line ?n m]"
    using ain lo ts cl ab nl assms(2,3) by (simp add: written_to_broadcast)
  moreover have "written_to ?s1 a = written_to s a" using written_to_login [OF assms(4)] ab by simp
  moreover have "chat_line ?n m = chat_line l m" using assms(8) by (simp add: chat_line_def)
  moreover have "login_of ?t b = Some ?n" using lo by simp
  ultimately show ?thesis using s1 t by simp
qed

theorem display_name_collision_witness:
  "\<exists>s t. run server_init [Accept 0, Receive 0 ''login:bob'', Accept 1, Receive 1 ''login:alice'', Accept 2] = Some s
     \<and> run s [Receive 2 ''login:alice '', Receive 2 ''hi''] = Some t \<and> login_of t 2 = Some ''alice ''
     \<and> written_to t 1 = written_to s 1 @ [''<alice>: hi'']"
proof -
  have "map_option (\<lambda>t. (login_of t 1, tstate_of t 1, tstate_of t 2, login_of t 2,
          list_all (\<lambda>x. login_of t x \<noteq> Some ''alice '') (clients t)))
          (run server_init [Accept 0, Receive 0 ''login:bob'', Accept 1, Receive 1 ''login:alice'', Accept 2])
        = Some (Some ''alice'', Some Open, Some Open, None, True)"
    by code_simp
  then obtain s where r: "run server_init [Accept 0, Receive 0 ''login:bob'', Accept 1, Receive 1 ''login:alice'', Accept 2] = Some s"
    and h: "login_of s 1 = Some ''alice''" "tstate_of s 1 = Some Open" "tstate_of s 2 = Some Open"
      "login_of s 2 = None" "\<forall>x\<in>set (clients s). login_of s x \<noteq> Some ''alice ''"
    by (auto simp: list_all_iff)
  have "reach s" using reach.init r by (rule run_reach)
  moreover have "py_decode ''login:alice '' = Inr ''login:alice ''" "py_startswith ''login:alice '' ''login:''"
    "parse_login ''login:alice '' = ''alice ''" "py_strip ''alice '' = py_strip ''alice''"
    "chat_line ''alice'' ''hi'' = ''<alice>: hi''"
    by code_simp+
  ultimately obtain t where "run s [Receive 2 ''login:alice '', Receive 2 ''hi''] = Some t"
    and "login_of t 2 = Some ''alice ''" and "written_to t 1 = written_to s 1 @ [''<alice>: hi'']"
    using display_name_collision [of s 1 "''alice''" 2 "''login:alice ''" "''login:alice ''" "''hi''"] h
    by (auto simp: dq_def)
  with r show ?thesis by blast
qed

text \<open>
  C30: a chat client cannot split a message anywhere. \<open>data_received\<close> decodes
  each chunk on its own (line 49), and TCP may cut a write anywhere: every
  valid text with a non-ASCII character has a cut whose first chunk is not
  UTF-8. Delivered so, the first chunk makes \<open>decode()\<close> raise, the loop
  force-closes the connection, and no later chunk of it is handled: the
  message is lost and the sender disconnected.
\<close>

theorem split_character_disconnects:
  assumes "tstate_of s c = Some Open" and "utf8_valid m" and "\<exists>x\<in>set m. 128 \<le> (of_char x :: nat)"
  shows "\<exists>p q. m = p @ q \<and> p \<noteq> [] \<and> q \<noteq> []
     \<and> server_step s (Receive c p) = Some (fatal_error c UnicodeDecodeError s)
     \<and> (\<forall>d. server_step (fatal_error c UnicodeDecodeError s) (Receive c d) = None)"
proof -
  obtain p q where pq: "m = p @ q" "p \<noteq> []" "q \<noteq> []" "\<not> utf8_valid p"
    using assms(2,3) by (rule utf8_valid_split_lead)
  have "server_step s (Receive c p) = Some (fatal_error c UnicodeDecodeError s)"
    using assms(1) pq(2,4) by (simp add: data_received_undecodable py_decode_def)
  moreover have "server_step (fatal_error c UnicodeDecodeError s) (Receive c d) = None" for d
    using fatal_error_effects(2) [OF assms(1)] by simp
  ultimately show ?thesis using pq by blast
qed

theorem split_character_disconnects_witness:
  "\<exists>p q. ''caf'' @ [CHR 0xC3, CHR 0xA9] = p @ q \<and> p \<noteq> [] \<and> q \<noteq> []
     \<and> server_step (connection_made 0 server_init) (Receive 0 p)
         = Some (fatal_error 0 UnicodeDecodeError (connection_made 0 server_init))"
proof -
  have h: "tstate_of (connection_made 0 server_init) 0 = Some Open"
    "utf8_valid (''caf'' @ [CHR 0xC3, CHR 0xA9])" "\<exists>x\<in>set (''caf'' @ [CHR 0xC3, CHR 0xA9]). 128 \<le> (of_char x :: nat)"
    by code_simp+
  show ?thesis using split_character_disconnects [OF h] by blast
qed

text \<open>
  C31: a client that sends its login and a first chat line in one write loses
  the line and gets the wrong name. \<open>data_received\<close> takes each chunk as one
  command, and \<open>str.replace\<close> removes every CR LF: the chunk
  \<open>login:alice\r\nhello\r\n\<close> logs the client in as \<open>alicehello\<close>; the line
  is neither saved nor sent to anyone.
\<close>

theorem coalesced_login_swallows_message:
  assumes "tstate_of s c = Some Open" and "login_of s c = None"
    and "\<not> occurs ''login:'' (n @ [CHR 0x0D, CHR 0x0A] @ m @ [CHR 0x0D, CHR 0x0A])"
    and "\<not> occurs [CHR 0x0D, CHR 0x0A] (n @ [CHR 0x0D])" "\<not> occurs [CHR 0x0D, CHR 0x0A] (m @ [CHR 0x0D])"
    and "utf8_valid (''login:'' @ n @ [CHR 0x0D, CHR 0x0A] @ m @ [CHR 0x0D, CHR 0x0A])"
    and "\<not> existing_login (n @ m) s"
  shows "\<exists>t. server_step s (Receive c (''login:'' @ n @ [CHR 0x0D, CHR 0x0A] @ m @ [CHR 0x0D, CHR 0x0A])) = Some t
     \<and> login_of t c = Some (n @ m) \<and> history t = history s
     \<and> (\<forall>x. x \<noteq> c \<longrightarrow> written_to t x = written_to s x)"
proof -
  let ?d = "''login:'' @ n @ [CHR 0x0D, CHR 0x0A] @ m @ [CHR 0x0D, CHR 0x0A]"
  let ?t = "send_history c 10 (write_to c (hello_line (n @ m)) (update_protocol c (\<lambda>p. p\<lparr>login := Some (n @ m)\<rparr>) s))"
  have p: "parse_login ?d = n @ m" using assms(3-5) by (rule parse_login_coalesced)
  have dec: "py_decode ?d = Inr ?d" using assms(6) by (simp add: py_decode_def)
  have ex: "\<not> existing_login (parse_login ?d) s" using assms(7) p by simp
  have "data_received c ?d s = Ok ?t"
    using data_received_login [OF dec assms(2) py_startswith_append ex] p by simp
  then have "server_step s (Receive c ?d) = Some ?t" using assms(1) by simp
  moreover have "login_of ?t c = Some (n @ m)" "history ?t = history s"
    using set_login_effects [OF assms(1), of "n @ m"] by simp_all
  moreover have "\<forall>x. x \<noteq> c \<longrightarrow> written_to ?t x = written_to s x"
    using written_to_login [OF assms(1), of "n @ m"] by simp
  ultimately show ?thesis by blast
qed

theorem coalesced_login_swallows_message_witness:
  "\<exists>t. server_step (connection_made 0 server_init)
         (Receive 0 (''login:'' @ ''alice'' @ [CHR 0x0D, CHR 0x0A] @ ''hello'' @ [CHR 0x0D, CHR 0x0A])) = Some t
     \<and> login_of t 0 = Some (''alice'' @ ''hello'')"
proof -
  have h: "tstate_of (connection_made 0 server_init) 0 = Some Open" "login_of (connection_made 0 server_init) 0 = None"
    "\<not> occurs ''login:'' (''alice'' @ [CHR 0x0D, CHR 0x0A] @ ''hello'' @ [CHR 0x0D, CHR 0x0A])"
    "\<not> occurs [CHR 0x0D, CHR 0x0A] (''alice'' @ [CHR 0x0D])" "\<not> occurs [CHR 0x0D, CHR 0x0A] (''hello'' @ [CHR 0x0D])"
    "utf8_valid (''login:'' @ ''alice'' @ [CHR 0x0D, CHR 0x0A] @ ''hello'' @ [CHR 0x0D, CHR 0x0A])"
    "\<not> existing_login (''alice'' @ ''hello'') (connection_made 0 server_init)"
    by code_simp+
  show ?thesis using coalesced_login_swallows_message [OF h] by blast
qed

text \<open>
  C33: an exception in \<open>data_received\<close> closes the transport
  (\<open>_fatal_error\<close>, \<open>_force_close\<close>) but leaves the protocol in
  \<open>Server.clients\<close> until the scheduled \<open>connection_lost\<close> runs. A message
  another client sends in between is still broadcast to it: the program calls
  \<open>write\<close> on the closed transport, which asyncio drops (it logs a warning
  once such writes pile up). The peer receives nothing more.
\<close>

theorem write_after_fatal_close:
  assumes "reach s" and "tstate_of s c = Some Open" and "u \<noteq> []" and "\<not> utf8_valid u"
    and "login_of s a = Some l" and "tstate_of s a = Some Open" and "login_of s c \<noteq> Some l"
    and "dq \<notin> set l" "CHR 0x00 \<notin> set l"
    and "utf8_valid m" "m \<noteq> []" "dq \<notin> set m" "CHR 0x00 \<notin> set m"
  shows "\<exists>t. run s [Receive c u, Receive a m] = Some t \<and> c \<in> set (clients t)
           \<and> tstate_of t c = Some Closing \<and> written_to t c = written_to s c
           \<and> calls_of t c = calls_of s c @ [TForce_close, TWrite (chat_line l m)]"
proof -
  let ?s1 = "fatal_error c UnicodeDecodeError s"
  let ?t = "broadcast (clients ?s1) (Some l) (chat_line l m) (?s1\<lparr>history := insert_rows [(l, m)] (history ?s1)\<rparr>)"
  have s1: "server_step s (Receive c u) = Some ?s1"
    using assms(2-4) by (simp add: data_received_undecodable py_decode_def)
  have ac: "a \<noteq> c" using assms(5,7) by auto
  have p: "protocols s c \<noteq> None" using assms(2) by (auto simp: tstate_of_def)
  have e: "login_of ?s1 = login_of s" "clients ?s1 = clients s" "written_to ?s1 = written_to s"
    "tstate_of ?s1 c = Some Closing"
    using fatal_error_effects [OF assms(2), of UnicodeDecodeError]
    by (simp_all add: fatal_error_def report_def login_of_def fun_eq_iff)
  have "tstate_of ?s1 a = Some Open"
    using assms(6) ac by (simp add: fatal_error_def tstate_of_force_close_transport)
  then have t: "server_step ?s1 (Receive a m) = Some ?t"
    using assms(5,10,11,8,12,9,13) e(1) by (intro chat_step) simp_all
  have wf: "conn_wf s" using assms(1) by (rule reach_conn_wf)
  have cin: "c \<in> set (clients s)" using wf assms(2) by (simp add: conn_wf_def)
  have d: "distinct (clients s)" using reach_registry_inv [OF assms(1)] by (simp add: registry_inv_def)
  have "protocols (report c UnicodeDecodeError s) c \<noteq> None" using p by (simp add: report_def)
  then have c1: "calls_of ?s1 c = calls_of s c @ [TForce_close]"
    unfolding fatal_error_def by (simp add: calls_of_self)
  have "protocols (?s1\<lparr>history := insert_rows [(l, m)] (history ?s1)\<rparr>) c \<noteq> None"
    using p by (auto simp: fatal_error_def report_def force_close_transport_def update_protocol_def)
  then have "calls_of ?t c = calls_of ?s1 c @ [TWrite (chat_line l m)]"
    using d cin e(1,2) assms(7) by (simp add: calls_of_broadcast_listed)
  moreover have "written_to ?t c = written_to s c"
    using e by (simp add: written_to_broadcast_closed)
  moreover have "c \<in> set (clients ?t)" "tstate_of ?t c = Some Closing" using cin e by simp_all
  ultimately show ?thesis using s1 t c1 by simp
qed

theorem write_after_fatal_close_witness:
  "\<exists>s t. run server_init [Accept 0, Receive 0 ''login:alice'', Accept 1, Receive 1 ''login:bob''] = Some s
     \<and> run s [Receive 1 [CHR 0xFF], Receive 0 ''hi''] = Some t \<and> 1 \<in> set (clients t)
     \<and> calls_of t 1 = calls_of s 1 @ [TForce_close, TWrite ''<alice>: hi'']"
proof -
  have "map_option (\<lambda>t. (tstate_of t 1, login_of t 0, tstate_of t 0, login_of t 1))
          (run server_init [Accept 0, Receive 0 ''login:alice'', Accept 1, Receive 1 ''login:bob''])
        = Some (Some Open, Some ''alice'', Some Open, Some ''bob'')"
    by code_simp
  then obtain s where r: "run server_init [Accept 0, Receive 0 ''login:alice'', Accept 1, Receive 1 ''login:bob''] = Some s"
    and h: "tstate_of s 1 = Some Open" "login_of s 0 = Some ''alice''" "tstate_of s 0 = Some Open"
      "login_of s 1 \<noteq> Some ''alice''"
    by auto
  have "reach s" using reach.init r by (rule run_reach)
  moreover have "\<not> utf8_valid [CHR 0xFF]" "chat_line ''alice'' ''hi'' = ''<alice>: hi''"
    by code_simp+
  ultimately obtain t where "run s [Receive 1 [CHR 0xFF], Receive 0 ''hi''] = Some t" and "1 \<in> set (clients t)"
    and "calls_of t 1 = calls_of s 1 @ [TForce_close, TWrite ''<alice>: hi'']"
    using write_after_fatal_close [of s 1 "[CHR 0xFF]" 0 "''alice''" "''hi''"] h
    by (auto simp: dq_def)
  with r show ?thesis by blast
qed

end
